theory Spec2Isabelle
  imports Main "HOL-Library.Sublist"
begin

section \<open>Entities and schemas\<close>

text \<open>
  The declarations of the entity model: \<^verbatim>\<open>Entity\<close>, \<^verbatim>\<open>EntitySchema\<close>,
  \<^verbatim>\<open>EntityDeleteProps\<close>, \<^verbatim>\<open>EntitySaveProps\<close> and \<^verbatim>\<open>EntityStatus\<close>.
  A value thrown by a hook or by the store is kept as what the handlers read from it,
  \<^verbatim>\<open>e?.message\<close>, which is undefined when the thrown value carries no message.
\<close>

datatype thrown = Thrown (message: "string option")

record 'm entity =
  entity_id :: string
  reference :: string
  entity_values :: 'm

datatype entityStatus = StatusNew | StatusExisting | StatusCopy

text \<open>
  \<^verbatim>\<open>customId?: boolean | EnumValues\<close>. The declaration of \<^verbatim>\<open>EnumValues\<close> is
  not part of the sources at hand; an enumerated identifier policy is kept as the list
  of the values it allows.
\<close>

datatype customId = CustomIdBool bool | CustomIdEnum "string list"

text \<open>
  The props handed to the hooks. The fields \<^verbatim>\<open>schema\<close> and \<^verbatim>\<open>context\<close> of the
  source are left out: the schema would make the record recursive, and the context is
  opaque to the lifecycle.
\<close>

record 'm entityDeleteProps =
  dp_collectionPath :: string
  dp_id :: string
  dp_entity :: "'m entity"

record 'm entitySaveProps =
  sp_collectionPath :: string
  sp_id :: "string option"
  sp_values :: 'm
  sp_status :: entityStatus

text \<open>
  A hook either returns (\<open>Inr\<close>) or throws (\<open>Inl\<close>); an optional hook is an
  \<open>option\<close>. The fields \<^verbatim>\<open>description\<close>, \<^verbatim>\<open>properties\<close>,
  \<^verbatim>\<open>defaultValues\<close> and \<^verbatim>\<open>views\<close> play no part in saving or deleting.
\<close>

record 'm entitySchema =
  name :: string
  customId :: "customId option"
  onSaveSuccess :: "('m entitySaveProps \<Rightarrow> thrown + unit) option"
  onSaveFailure :: "('m entitySaveProps \<Rightarrow> thrown + unit) option"
  onPreSave :: "('m entitySaveProps \<Rightarrow> thrown + 'm) option"
  onPreDelete :: "('m entityDeleteProps \<Rightarrow> thrown + unit) option"
  onDelete :: "('m entityDeleteProps \<Rightarrow> thrown + unit) option"

section \<open>Observable effects\<close>

datatype snackbarType = SnackSuccess | SnackWarning | SnackError

record snackbarMessage =
  snack_type :: snackbarType
  snack_title :: "string option"
  snack_message :: "string option"

datatype phase = PreSave | PostSaveSuccess | PostSaveFailure | PreDelete | PostDelete

text \<open>
  Everything the dialog and the operations do to the outside is an event of a trace:
  the snackbar, the console, the state setter \<^verbatim>\<open>setLoading\<close>, the callbacks of the
  caller, the hooks of the schema and the calls of the store.
\<close>

datatype 'm event =
    SnackbarOpen snackbarMessage
  | ConsoleDebug
  | ConsoleError
  | SetLoading bool
  | CallOnClose
  | CallOnEntityDelete string "'m entity"
  | CallOnMultipleEntitiesDelete string "'m entity list"
  | HookCall phase
  | StoreDeleteCall string string
  | StoreSaveCall string "string option" 'm

section \<open>The store collaborator\<close>

text \<open>
  The document store is external. Its two operations are parameters: each returns the
  error of the store (\<open>Inl\<close>) and leaves the state as it was, or the new state.
\<close>

record ('m, 'st) storeOps =
  store_delete :: "string \<Rightarrow> string \<Rightarrow> 'st \<Rightarrow> thrown + 'st"
  store_save :: "string \<Rightarrow> string option \<Rightarrow> 'm \<Rightarrow> 'st \<Rightarrow> thrown + (string \<times> 'st)"

section \<open>Outcomes of one operation\<close>

datatype failure = ValidationFailure | HookFailure phase thrown | StoreFailure thrown

datatype ('s, 'f) outcome = OpSuccess 's | OpFailure 'f failure

record ('s, 'f) opResult =
  verdict :: "('s, 'f) outcome"
  hookError :: "failure option"

fun isSuccess :: "('s, 'f) outcome \<Rightarrow> bool" where
  "isSuccess (OpSuccess _) = True"
| "isSuccess (OpFailure _ _) = False"

datatype 'a hookResult = HookAbsent | HookReturned 'a | HookRaised thrown

text \<open>
  Modelled from the spec: the hook registry's invoke-if-present contract (the module
  that invokes the hooks is not among the sources). An absent hook is told apart from
  one that ran, and a failure raised inside the hook body is caught at the invocation.
\<close>

definition invokeIfPresent :: "('p \<Rightarrow> thrown + 'a) option \<Rightarrow> 'p \<Rightarrow> 'a hookResult" where
  "invokeIfPresent h p =
     (case h of
        None \<Rightarrow> HookAbsent
      | Some f \<Rightarrow> (case f p of Inl e \<Rightarrow> HookRaised e | Inr v \<Rightarrow> HookReturned v))"

text \<open>A hook that is present leaves its invocation in the trace.\<close>

definition hookEvents :: "phase \<Rightarrow> 'a hookResult \<Rightarrow> 'm event list" where
  "hookEvents ph r = (case r of HookAbsent \<Rightarrow> [] | _ \<Rightarrow> [HookCall ph])"

section \<open>Deleting one entity\<close>

text \<open>The four handlers that a caller of \<^verbatim>\<open>deleteEntity\<close> passes in.\<close>

record 'm deleteHandlers =
  h_onDeleteSuccess :: "'m entity \<Rightarrow> 'm event list"
  h_onDeleteFailure :: "'m entity \<Rightarrow> thrown \<Rightarrow> 'm event list"
  h_onPreDeleteHookError :: "'m entity \<Rightarrow> thrown \<Rightarrow> 'm event list"
  h_onDeleteSuccessHookError :: "'m entity \<Rightarrow> thrown \<Rightarrow> 'm event list"

text \<open>
  Modelled from the spec: the delete operation of the single-entity executor
  (\<^verbatim>\<open>deleteEntity\<close> of \<^verbatim>\<open>models/firestore\<close>, which is not among the sources).
  \<^enum> If \<^verbatim>\<open>onPreDelete\<close> is present it is invoked; when it raises, the delete is
    aborted, no store deletion is attempted, the pre-delete handler gets the error and
    the outcome is a failure with the pre-delete reason.
  \<^enum> The store deletes by collection path and id.
  \<^enum> On store success \<^verbatim>\<open>onDelete\<close> is invoked if present; when it raises, the
    post-delete handler gets the error and the outcome is still a success.
  \<^enum> On store failure the failure handler gets the store's error, \<^verbatim>\<open>onDelete\<close> is
    not invoked and the outcome is a failure.
\<close>

definition performDeleteOp ::
  "('m, 'st) storeOps \<Rightarrow> 'm entitySchema \<Rightarrow> string \<Rightarrow> 'm deleteHandlers \<Rightarrow> 'm entity \<Rightarrow> 'st
     \<Rightarrow> ('m event list \<times> ('m entity, 'm entity) opResult) \<times> 'st" where
  "performDeleteOp db sch path hs e s =
     (let props = \<lparr>dp_collectionPath = path, dp_id = entity_id e, dp_entity = e\<rparr>;
          pre = invokeIfPresent (onPreDelete sch) props
      in case pre of
           HookRaised err \<Rightarrow>
             ((hookEvents PreDelete pre @ h_onPreDeleteHookError hs e err,
               \<lparr>verdict = OpFailure e (HookFailure PreDelete err), hookError = None\<rparr>), s)
         | _ \<Rightarrow>
             (case store_delete db path (entity_id e) s of
                Inl err \<Rightarrow>
                  ((hookEvents PreDelete pre @ [StoreDeleteCall path (entity_id e)]
                      @ h_onDeleteFailure hs e err,
                    \<lparr>verdict = OpFailure e (StoreFailure err), hookError = None\<rparr>), s)
              | Inr s' \<Rightarrow>
                  (let post = invokeIfPresent (onDelete sch) props;
                       done = hookEvents PreDelete pre @ [StoreDeleteCall path (entity_id e)]
                                @ h_onDeleteSuccess hs e @ hookEvents PostDelete post
                   in case post of
                        HookRaised err \<Rightarrow>
                          ((done @ h_onDeleteSuccessHookError hs e err,
                            \<lparr>verdict = OpSuccess e,
                             hookError = Some (HookFailure PostDelete err)\<rparr>), s')
                      | _ \<Rightarrow> ((done, \<lparr>verdict = OpSuccess e, hookError = None\<rparr>), s'))))"

text \<open>
  Modelled from the spec: \<^verbatim>\<open>deleteEntity\<close> resolves to the boolean the dialog reads,
  true exactly for a success outcome.
\<close>

definition deleteEntity ::
  "('m, 'st) storeOps \<Rightarrow> 'm entitySchema \<Rightarrow> string \<Rightarrow> 'm deleteHandlers \<Rightarrow> 'm entity \<Rightarrow> 'st
     \<Rightarrow> ('m event list \<times> bool) \<times> 'st" where
  "deleteEntity db sch path hs e s =
     (case performDeleteOp db sch path hs e s of
        ((evs, r), s') \<Rightarrow> ((evs, isSuccess (verdict r)), s'))"

text \<open>
  Modelled from the spec: the two segments of the delete operation. The operation is
  suspended at its store call and nowhere else, the delete hooks being declared
  synchronous (\<^verbatim>\<open>void\<close>). The first segment runs when the operation is started:
  the pre-delete hook and, unless it raised, the call of the store. The second segment
  runs when the store has answered: the handlers and the post-delete hook. An operation
  is in flight between the two.
\<close>

datatype 'm task = InFlight "'m entity" | Settled "('m entity, 'm entity) opResult"

text \<open>
  Modelled from the spec: the first segment of \<^verbatim>\<open>deleteEntity\<close>, up to its suspension at
  the store call. A pre-delete hook that raises settles the operation at once, with the
  pre-delete handler invoked and no call of the store.
\<close>

definition startDelete ::
  "'m entitySchema \<Rightarrow> string \<Rightarrow> 'm deleteHandlers \<Rightarrow> 'm entity \<Rightarrow> 'm event list \<times> 'm task" where
  "startDelete sch path hs e =
     (let props = \<lparr>dp_collectionPath = path, dp_id = entity_id e, dp_entity = e\<rparr>;
          pre = invokeIfPresent (onPreDelete sch) props
      in case pre of
           HookRaised err \<Rightarrow>
             (hookEvents PreDelete pre @ h_onPreDeleteHookError hs e err,
              Settled \<lparr>verdict = OpFailure e (HookFailure PreDelete err), hookError = None\<rparr>)
         | _ \<Rightarrow> (hookEvents PreDelete pre @ [StoreDeleteCall path (entity_id e)], InFlight e))"

text \<open>
  Modelled from the spec: the second segment of \<^verbatim>\<open>deleteEntity\<close>, from the answer of
  the store on. The store deletes in the state it is in when it answers.
\<close>

definition completeDelete ::
  "('m, 'st) storeOps \<Rightarrow> 'm entitySchema \<Rightarrow> string \<Rightarrow> 'm deleteHandlers \<Rightarrow> 'm entity \<Rightarrow> 'st
     \<Rightarrow> ('m event list \<times> ('m entity, 'm entity) opResult) \<times> 'st" where
  "completeDelete db sch path hs e s =
     (let props = \<lparr>dp_collectionPath = path, dp_id = entity_id e, dp_entity = e\<rparr>
      in case store_delete db path (entity_id e) s of
           Inl err \<Rightarrow>
             ((h_onDeleteFailure hs e err,
               \<lparr>verdict = OpFailure e (StoreFailure err), hookError = None\<rparr>), s)
         | Inr s' \<Rightarrow>
             (let post = invokeIfPresent (onDelete sch) props;
                  done = h_onDeleteSuccess hs e @ hookEvents PostDelete post
              in case post of
                   HookRaised err \<Rightarrow>
                     ((done @ h_onDeleteSuccessHookError hs e err,
                       \<lparr>verdict = OpSuccess e,
                        hookError = Some (HookFailure PostDelete err)\<rparr>), s')
                 | _ \<Rightarrow> ((done, \<lparr>verdict = OpSuccess e, hookError = None\<rparr>), s')))"

fun isSettled :: "'m task \<Rightarrow> bool" where
  "isSettled (InFlight _) = False"
| "isSettled (Settled _) = True"

text \<open>The outcomes of the operations that have settled, in the order of the tasks.\<close>

fun outcomes :: "'m task list \<Rightarrow> ('m entity, 'm entity) opResult list" where
  "outcomes [] = []"
| "outcomes (InFlight _ # ts) = outcomes ts"
| "outcomes (Settled r # ts) = r # outcomes ts"

section \<open>The delete dialog\<close>

datatype 'm entityOrEntities = OneEntity "'m entity" | EntityArray "'m entity list"

text \<open>
  \<^verbatim>\<open>DeleteEntityDialogProps\<close>. The optional callbacks of the caller are opaque: a
  flag says whether one was passed, and its invocation is an event.
\<close>

record 'm deleteEntityDialogProps =
  entityOrEntitiesToDelete :: "'m entityOrEntities option"
  collectionPath :: string
  schema :: "'m entitySchema"
  onEntityDelete :: bool
  onMultipleEntitiesDelete :: bool

text \<open>
  The state of the component: the states \<^verbatim>\<open>loading\<close> and \<^verbatim>\<open>multipleEntities\<close>, the
  ref \<^verbatim>\<open>entityOrEntitiesRef.current\<close>, and \<^verbatim>\<open>entityOrEntities\<close>, the copy of the ref
  that the last render took (\<^verbatim>\<open>const entityOrEntities = entityOrEntitiesRef.current\<close>).
  The handlers and the output of a render read the copy, not the ref.
\<close>

record 'm dialogState =
  loading :: bool
  entityOrEntitiesRef :: "'m entityOrEntities option"
  multipleEntities :: "bool option"
  entityOrEntities :: "'m entityOrEntities option"

definition initialState :: "'m dialogState" where
  "initialState =
     \<lparr>loading = False, entityOrEntitiesRef = None, multipleEntities = None,
      entityOrEntities = None\<rparr>"

fun isArray :: "'m entityOrEntities \<Rightarrow> bool" where
  "isArray (OneEntity _) = False"
| "isArray (EntityArray _) = True"

text \<open>A render runs the component function, which copies the ref.\<close>

definition render :: "'m dialogState \<Rightarrow> 'm dialogState" where
  "render st = st\<lparr>entityOrEntities := entityOrEntitiesRef st\<rparr>"

text \<open>
  The state setters. Setting a state to the value it already has is followed by no
  render; setting it to another value is followed by one.
\<close>

definition setMultipleEntities :: "bool \<Rightarrow> 'm dialogState \<Rightarrow> 'm dialogState" where
  "setMultipleEntities v st =
     (if multipleEntities st = Some v then st else render (st\<lparr>multipleEntities := Some v\<rparr>))"

definition setLoading :: "bool \<Rightarrow> 'm dialogState \<Rightarrow> 'm dialogState" where
  "setLoading v st = (if loading st = v then st else render (st\<lparr>loading := v\<rparr>))"

text \<open>
  The effect on \<^verbatim>\<open>entityOrEntitiesToDelete\<close>: an object or an array is truthy (the
  empty array too), and an array of length one is replaced by its element. The effect
  writes the ref and sets \<^verbatim>\<open>multipleEntities\<close>.
\<close>

fun normalise :: "'m entityOrEntities \<Rightarrow> 'm entityOrEntities" where
  "normalise (EntityArray [e]) = OneEntity e"
| "normalise x = x"

definition useEffect :: "'m deleteEntityDialogProps \<Rightarrow> 'm dialogState \<Rightarrow> 'm dialogState" where
  "useEffect p st =
     (case entityOrEntitiesToDelete p of
        None \<Rightarrow> st
      | Some x \<Rightarrow>
          setMultipleEntities (isArray (normalise x))
            (st\<lparr>entityOrEntitiesRef := Some (normalise x)\<rparr>))"

text \<open>
  The parent passes props: the component renders with the ref as it is, and the effect
  runs after that render.
\<close>

definition receiveProps :: "'m deleteEntityDialogProps \<Rightarrow> 'm dialogState \<Rightarrow> 'm dialogState" where
  "receiveProps p st = useEffect p (render st)"

text \<open>JavaScript truthiness of \<^verbatim>\<open>multipleEntities\<close>: undefined is falsy.\<close>

definition truthy :: "bool option \<Rightarrow> bool" where
  "truthy b = (case b of None \<Rightarrow> False | Some v \<Rightarrow> v)"

subsection \<open>The handlers of the dialog\<close>

definition handleCancel :: "'m event list" where
  "handleCancel = [CallOnClose]"

definition onDeleteSuccess :: "'m entity \<Rightarrow> 'm event list" where
  "onDeleteSuccess e = [ConsoleDebug]"

definition onDeleteFailure :: "'m entitySchema \<Rightarrow> 'm entity \<Rightarrow> thrown \<Rightarrow> 'm event list" where
  "onDeleteFailure sch e err =
     [SnackbarOpen \<lparr>snack_type = SnackError,
                    snack_title = Some (name sch @ '': Error deleting''),
                    snack_message = message err\<rparr>,
      ConsoleError, ConsoleError]"

definition onPreDeleteHookError :: "'m entitySchema \<Rightarrow> 'm entity \<Rightarrow> thrown \<Rightarrow> 'm event list" where
  "onPreDeleteHookError sch e err =
     [SnackbarOpen \<lparr>snack_type = SnackError,
                    snack_title = Some (name sch @ '': Error before deleting''),
                    snack_message = message err\<rparr>,
      ConsoleError]"

definition onDeleteSuccessHookError :: "'m entitySchema \<Rightarrow> 'm entity \<Rightarrow> thrown \<Rightarrow> 'm event list" where
  "onDeleteSuccessHookError sch e err =
     [SnackbarOpen \<lparr>snack_type = SnackError,
                    snack_title = Some (name sch @ '': Error after deleting (entity is deleted)''),
                    snack_message = message err\<rparr>,
      ConsoleError]"

definition dialogHandlers :: "'m entitySchema \<Rightarrow> 'm deleteHandlers" where
  "dialogHandlers sch =
     \<lparr>h_onDeleteSuccess = onDeleteSuccess,
      h_onDeleteFailure = onDeleteFailure sch,
      h_onPreDeleteHookError = onPreDeleteHookError sch,
      h_onDeleteSuccessHookError = onDeleteSuccessHookError sch\<rparr>"

definition performDelete ::
  "('m, 'st) storeOps \<Rightarrow> 'm deleteEntityDialogProps \<Rightarrow> 'm entity \<Rightarrow> 'st
     \<Rightarrow> ('m event list \<times> bool) \<times> 'st" where
  "performDelete db p e s =
     deleteEntity db (schema p) (collectionPath p) (dialogHandlers (schema p)) e s"

subsection \<open>The Ok action\<close>

text \<open>The notification of a batch, from \<^verbatim>\<open>results.every(Boolean)\<close> and \<^verbatim>\<open>results.some(Boolean)\<close>.\<close>

definition multipleSnackbar :: "'m entitySchema \<Rightarrow> bool list \<Rightarrow> snackbarMessage" where
  "multipleSnackbar sch results =
     (if list_all (\<lambda>b. b) results then
        \<lparr>snack_type = SnackSuccess, snack_title = None,
         snack_message = Some (name sch @ '': multiple deleted'')\<rparr>
      else if list_ex (\<lambda>b. b) results then
        \<lparr>snack_type = SnackWarning, snack_title = None,
         snack_message = Some (name sch @ '': Some of the entities have been deleted, but not all'')\<rparr>
      else
        \<lparr>snack_type = SnackError, snack_title = None,
         snack_message = Some (name sch @ '': Error deleting entities'')\<rparr>)"

text \<open>The continuation of the batch, run with the results of all the deletes.\<close>

definition thenMultiple ::
  "'m deleteEntityDialogProps \<Rightarrow> 'm entity list \<Rightarrow> bool list \<Rightarrow> 'm event list" where
  "thenMultiple p es results =
     [SetLoading False]
     @ (if onMultipleEntitiesDelete p
        then [CallOnMultipleEntitiesDelete (collectionPath p) es] else [])
     @ [SnackbarOpen (multipleSnackbar (schema p) results)]
     @ [CallOnClose]"

text \<open>The continuation of a single delete.\<close>

definition thenSingle :: "'m deleteEntityDialogProps \<Rightarrow> 'm entity \<Rightarrow> bool \<Rightarrow> 'm event list" where
  "thenSingle p e success =
     [SetLoading False]
     @ (if success then
          (if onEntityDelete p then [CallOnEntityDelete (collectionPath p) e] else [])
          @ [SnackbarOpen \<lparr>snack_type = SnackSuccess, snack_title = None,
                           snack_message = Some (name (schema p) @ '' deleted'')\<rparr>,
             CallOnClose]
        else [])"

text \<open>
  \<^verbatim>\<open>xs.map(f)\<close> with an asynchronous \<^verbatim>\<open>f\<close>: the first segment of every operation
  runs, in the order of the elements, before anything else happens.
\<close>

fun launch :: "('a \<Rightarrow> 'ev list \<times> 't) \<Rightarrow> 'a list \<Rightarrow> 'ev list \<times> 't list" where
  "launch f [] = ([], [])"
| "launch f (x # xs) =
     (case f x of (ev, t) \<Rightarrow> (case launch f xs of (evs, ts) \<Rightarrow> (ev @ evs, t # ts)))"

text \<open>
  A batch under way: the tasks in the order of the targets, the state of the store, the
  trace so far, and whether the continuation of \<^verbatim>\<open>Promise.all\<close> has run.
\<close>

record ('m, 'st) batch =
  tasks :: "'m task list"
  batchStore :: 'st
  trace :: "'m event list"
  continued :: bool

text \<open>The store answers the delete of task \<open>i\<close>, and the operation runs its second segment.\<close>

definition resolve ::
  "('m, 'st) storeOps \<Rightarrow> 'm deleteEntityDialogProps \<Rightarrow> nat \<Rightarrow> ('m, 'st) batch \<Rightarrow> ('m, 'st) batch" where
  "resolve db p i b =
     (if i < length (tasks b) then
        (case tasks b ! i of
           InFlight e \<Rightarrow>
             (case completeDelete db (schema p) (collectionPath p) (dialogHandlers (schema p)) e
                     (batchStore b) of
                ((evs, r), s') \<Rightarrow>
                  b\<lparr>tasks := (tasks b)[i := Settled r], batchStore := s',
                    trace := trace b @ evs\<rparr>)
         | Settled _ \<Rightarrow> b)
      else b)"

text \<open>
  \<^verbatim>\<open>Promise.all(...).then(...)\<close>: once every operation has settled, the continuation
  runs, one time, with the results in the order of the targets.
\<close>

definition thenWhenAll ::
  "'m deleteEntityDialogProps \<Rightarrow> 'm entity list \<Rightarrow> ('m, 'st) batch \<Rightarrow> ('m, 'st) batch" where
  "thenWhenAll p es b =
     (if \<not> continued b \<and> list_all isSettled (tasks b) then
        b\<lparr>trace := trace b @ thenMultiple p es (map (\<lambda>r. isSuccess (verdict r)) (outcomes (tasks b))),
          continued := True\<rparr>
      else b)"

text \<open>
  The batch of the dialog. All the deletes are started; then the store answers them in
  the order of the schedule, a list of task numbers. The order in which the store
  answers is not the dialog's to choose, so it is a parameter; a number that names no
  task in flight changes nothing. A schedule that leaves a task in flight gives the
  batch as it stands at that moment.
\<close>

definition promiseAllThen ::
  "('m, 'st) storeOps \<Rightarrow> 'm deleteEntityDialogProps \<Rightarrow> 'm entity list \<Rightarrow> nat list \<Rightarrow> 'st
     \<Rightarrow> ('m, 'st) batch" where
  "promiseAllThen db p es sched s =
     (case launch (startDelete (schema p) (collectionPath p) (dialogHandlers (schema p))) es of
        (evs, ts) \<Rightarrow>
          fold (\<lambda>i b. thenWhenAll p es (resolve db p i b)) sched
            (thenWhenAll p es \<lparr>tasks = ts, batchStore = s, trace = evs, continued = False\<rparr>))"

text \<open>The results of the deletes of a batch that have settled.\<close>

definition batchResults ::
  "('m, 'st) storeOps \<Rightarrow> 'm deleteEntityDialogProps \<Rightarrow> 'm entity list \<Rightarrow> nat list \<Rightarrow> 'st
     \<Rightarrow> bool list" where
  "batchResults db p es sched s =
     map (\<lambda>r. isSuccess (verdict r)) (outcomes (tasks (promiseAllThen db p es sched s)))"

text \<open>
  What a run of \<^verbatim>\<open>handleOk\<close> leaves: the trace, the state of the component and the
  state of the store. \<open>completed\<close> says that the continuation has run. It is false
  while a delete of the batch is in flight, and when the run stopped on a type error:
  the casts \<^verbatim>\<open>as Entity<M>[]\<close> and \<^verbatim>\<open>as Entity<M>\<close> are unchecked, and a copy of the
  ref that disagrees with \<^verbatim>\<open>multipleEntities\<close> makes the call after
  \<^verbatim>\<open>setLoading(true)\<close> fail.
\<close>

record ('m, 'st) run =
  events :: "'m event list"
  dialog :: "'m dialogState"
  store :: 'st
  completed :: bool

definition handleOk ::
  "('m, 'st) storeOps \<Rightarrow> nat list \<Rightarrow> 'm deleteEntityDialogProps \<Rightarrow> 'm dialogState \<Rightarrow> 'st
     \<Rightarrow> ('m, 'st) run" where
  "handleOk db sched p st s =
     (case entityOrEntities st of
        None \<Rightarrow> \<lparr>events = [], dialog = st, store = s, completed = True\<rparr>
      | Some x \<Rightarrow>
          (if truthy (multipleEntities st) then
             (case x of
                EntityArray es \<Rightarrow>
                  (let b = promiseAllThen db p es sched s
                   in \<lparr>events = SetLoading True # trace b,
                       dialog = (if continued b then setLoading False (setLoading True st)
                                 else setLoading True st),
                       store = batchStore b, completed = continued b\<rparr>)
              | OneEntity _ \<Rightarrow>
                  \<lparr>events = [SetLoading True], dialog = setLoading True st,
                   store = s, completed = False\<rparr>)
           else
             (case x of
                OneEntity e \<Rightarrow>
                  (case performDelete db p e s of
                     ((evs, success), s') \<Rightarrow>
                       \<lparr>events = [SetLoading True] @ evs @ thenSingle p e success,
                        dialog = setLoading False (setLoading True st), store = s',
                        completed = True\<rparr>)
              | EntityArray _ \<Rightarrow>
                  \<lparr>events = [SetLoading True], dialog = setLoading True st,
                   store = s, completed = False\<rparr>)))"

subsection \<open>What the dialog renders\<close>

text \<open>
  The content is the placeholder of a batch or the preview of the entity. A copy of the
  ref that holds an array while \<^verbatim>\<open>multipleEntities\<close> is falsy would be cast to an
  entity; no preview is given for it (no state that the dialog reaches is such a state).
\<close>

datatype 'm content = MultipleEntitiesDiv | EntityPreview "'m entity"

definition content :: "'m dialogState \<Rightarrow> 'm content option" where
  "content st =
     (case entityOrEntities st of
        None \<Rightarrow> None
      | Some x \<Rightarrow>
          (if truthy (multipleEntities st) then Some MultipleEntitiesDiv
           else (case x of OneEntity e \<Rightarrow> Some (EntityPreview e) | EntityArray _ \<Rightarrow> None)))"

definition dialogTitle :: "'m deleteEntityDialogProps \<Rightarrow> 'm dialogState \<Rightarrow> string" where
  "dialogTitle p st =
     (if truthy (multipleEntities st) then name (schema p) @ '': Confirm multiple delete?''
      else ''Would you like to delete this '' @ name (schema p) @ ''?'')"

text \<open>\<^verbatim>\<open>DialogContent\<close> is rendered only when \<^verbatim>\<open>multipleEntities\<close> is falsy.\<close>

definition dialogContent :: "'m dialogState \<Rightarrow> 'm content option" where
  "dialogContent st = (if truthy (multipleEntities st) then None else content st)"

section \<open>Saving one entity\<close>



text \<open>The failure of a hook that raised, tagged with its phase.\<close>

definition raisedAs :: "phase \<Rightarrow> 'a hookResult \<Rightarrow> failure option" where
  "raisedAs ph r = (case r of HookRaised e \<Rightarrow> Some (HookFailure ph e) | _ \<Rightarrow> None)"


section \<open>Reading a trace\<close>

fun notifications :: "'m event list \<Rightarrow> snackbarMessage list" where
  "notifications [] = []"
| "notifications (SnackbarOpen m # evs) = m # notifications evs"
| "notifications (_ # evs) = notifications evs"

fun multipleDeleteCalls :: "'m event list \<Rightarrow> (string \<times> 'm entity list) list" where
  "multipleDeleteCalls [] = []"
| "multipleDeleteCalls (CallOnMultipleEntitiesDelete path es # evs) = (path, es) # multipleDeleteCalls evs"
| "multipleDeleteCalls (_ # evs) = multipleDeleteCalls evs"

fun entityDeleteCalls :: "'m event list \<Rightarrow> (string \<times> 'm entity) list" where
  "entityDeleteCalls [] = []"
| "entityDeleteCalls (CallOnEntityDelete path e # evs) = (path, e) # entityDeleteCalls evs"
| "entityDeleteCalls (_ # evs) = entityDeleteCalls evs"

fun closeCalls :: "'m event list \<Rightarrow> nat" where
  "closeCalls [] = 0"
| "closeCalls (CallOnClose # evs) = Suc (closeCalls evs)"
| "closeCalls (_ # evs) = closeCalls evs"

fun storeCalls :: "'m event list \<Rightarrow> nat" where
  "storeCalls [] = 0"
| "storeCalls (StoreDeleteCall _ _ # evs) = Suc (storeCalls evs)"
| "storeCalls (StoreSaveCall _ _ _ # evs) = Suc (storeCalls evs)"
| "storeCalls (_ # evs) = storeCalls evs"

text \<open>
  The events of one delete operation: its hooks, its store call, the console, and the
  error notifications of its handlers, which all carry a title. The dialog's own
  events (the state setter, the caller's callbacks, the untitled notifications) are not
  among them.
\<close>

fun isOperationEvent :: "'m event \<Rightarrow> bool" where
  "isOperationEvent (SnackbarOpen m) = (snack_type m = SnackError \<and> snack_title m \<noteq> None)"
| "isOperationEvent ConsoleDebug = True"
| "isOperationEvent ConsoleError = True"
| "isOperationEvent (HookCall _) = True"
| "isOperationEvent (StoreDeleteCall _ _) = True"
| "isOperationEvent (StoreSaveCall _ _ _) = True"
| "isOperationEvent (SetLoading _) = False"
| "isOperationEvent CallOnClose = False"
| "isOperationEvent (CallOnEntityDelete _ _) = False"
| "isOperationEvent (CallOnMultipleEntitiesDelete _ _) = False"

text \<open>The targets of a batch whose delete succeeded, in the order of the batch.\<close>

definition succeededTargets :: "'a list \<Rightarrow> bool list \<Rightarrow> 'a list" where
  "succeededTargets es results = map fst (filter snd (zip es results))"

text \<open>An operation that reported an error to one of the handlers.\<close>

definition reported :: "('s, 'f) opResult \<Rightarrow> bool" where
  "reported r = (\<not> isSuccess (verdict r) \<or> hookError r \<noteq> None)"

text \<open>
  The ref, its copy and \<^verbatim>\<open>multipleEntities\<close> agree: all undefined, or the flag says
  whether the ref holds an array and whether the copy does. The copy need not be the ref.
\<close>

definition agrees :: "bool option \<Rightarrow> 'm entityOrEntities option \<Rightarrow> bool" where
  "agrees flag x = (case x of None \<Rightarrow> flag = None | Some y \<Rightarrow> flag = Some (isArray y))"

definition consistent :: "'m dialogState \<Rightarrow> bool" where
  "consistent st =
     (agrees (multipleEntities st) (entityOrEntitiesRef st)
      \<and> agrees (multipleEntities st) (entityOrEntities st))"

text \<open>A schedule under which the store answers every delete of a batch of \<open>n\<close> targets.\<close>

definition answersAll :: "nat list \<Rightarrow> nat \<Rightarrow> bool" where
  "answersAll sched n = list_all (\<lambda>i. i \<in> set sched) [0..<n]"

text \<open>
  What holds of a batch at every moment of every schedule: there is one task per target;
  the continuation has run exactly when every task has settled; and the trace is the
  events of the operations, with one error notification for every settled operation
  that reported an error, followed by the continuation if it has run.
\<close>

definition batchInvariant ::
  "'m deleteEntityDialogProps \<Rightarrow> 'm entity list \<Rightarrow> ('m, 'st) batch \<Rightarrow> bool" where
  "batchInvariant p es b =
     (length (tasks b) = length es
      \<and> continued b = list_all isSettled (tasks b)
      \<and> (\<exists>ops. list_all isOperationEvent ops
            \<and> length (notifications ops) = length (filter reported (outcomes (tasks b)))
            \<and> trace b = ops @ (if continued b
                 then thenMultiple p es (map (\<lambda>r. isSuccess (verdict r)) (outcomes (tasks b)))
                 else [])))"

section \<open>A store and a schema to run the operations on\<close>

text \<open>
  A store in memory: the documents are pairs of collection path and id. Deleting a
  document that is not there is the store's error; saving without an id assigns one.
\<close>

definition memoryStore :: "('m, (string \<times> string) list) storeOps" where
  "memoryStore =
     \<lparr>store_delete = (\<lambda>path i docs.
         if (path, i) \<in> set docs then Inr (removeAll (path, i) docs)
         else Inl (Thrown (Some ''not found''))),
      store_save = (\<lambda>path i vals docs.
         (case i of
            None \<Rightarrow> Inr (''auto'', (path, ''auto'') # docs)
          | Some v \<Rightarrow> Inr (v, (path, v) # docs)))\<rparr>"

definition productSchema :: "unit entitySchema" where
  "productSchema =
     \<lparr>name = ''Product'', customId = None, onSaveSuccess = None, onSaveFailure = None,
      onPreSave = None, onPreDelete = None, onDelete = None\<rparr>"

definition product :: "string \<Rightarrow> unit entity" where
  "product i = \<lparr>entity_id = i, reference = ''products/'' @ i, entity_values = ()\<rparr>"

definition productProps :: "unit entityOrEntities option \<Rightarrow> unit deleteEntityDialogProps" where
  "productProps x =
     \<lparr>entityOrEntitiesToDelete = x, collectionPath = ''products'', schema = productSchema,
      onEntityDelete = True, onMultipleEntitiesDelete = True\<rparr>"

definition raising :: "'p \<Rightarrow> thrown + 'a" where
  "raising p = Inl (Thrown (Some ''refused''))"

definition threeProducts :: "unit entity list" where
  "threeProducts = [product ''1'', product ''2'', product ''3'']"

definition batchProps :: "unit deleteEntityDialogProps" where
  "batchProps = productProps (Some (EntityArray threeProducts))"

text \<open>A store that holds the first and the third product, and not the second.\<close>

definition twoDocs :: "(string \<times> string) list" where
  "twoDocs = [(''products'', ''1''), (''products'', ''3'')]"

text \<open>Schemas with a hook that raises, and one with an enumerated identifier policy.\<close>

definition lockedSchema :: "unit entitySchema" where
  "lockedSchema = productSchema\<lparr>onPreDelete := Some raising\<rparr>"

definition auditedSchema :: "unit entitySchema" where
  "auditedSchema = productSchema\<lparr>onDelete := Some raising\<rparr>"


definition lockedBatchProps :: "unit deleteEntityDialogProps" where
  "lockedBatchProps = batchProps\<lparr>schema := lockedSchema\<rparr>"

text \<open>The store answers the three deletes in the order of the targets.\<close>

definition inOrder :: "nat list" where
  "inOrder = [0, 1, 2]"

text \<open>One product after the other in the same dialog.\<close>

definition productThenProduct :: "unit dialogState" where
  "productThenProduct =
     receiveProps (productProps (Some (EntityArray [product ''3''])))
       (receiveProps (productProps (Some (OneEntity (product ''1'')))) initialState)"

section \<open>Traces of the operations\<close>

lemma notifications_append: "notifications (xs @ ys) = notifications xs @ notifications ys"
  by (induction xs rule: notifications.induct) simp_all

lemma multipleDeleteCalls_append:
  "multipleDeleteCalls (xs @ ys) = multipleDeleteCalls xs @ multipleDeleteCalls ys"
  by (induction xs rule: multipleDeleteCalls.induct) simp_all

lemma entityDeleteCalls_append:
  "entityDeleteCalls (xs @ ys) = entityDeleteCalls xs @ entityDeleteCalls ys"
  by (induction xs rule: entityDeleteCalls.induct) simp_all

lemma closeCalls_append: "closeCalls (xs @ ys) = closeCalls xs + closeCalls ys"
  by (induction xs rule: closeCalls.induct) simp_all

lemma storeCalls_append: "storeCalls (xs @ ys) = storeCalls xs + storeCalls ys"
  by (induction xs rule: storeCalls.induct) simp_all

lemma operation_no_multipleDeleteCalls:
  "list_all isOperationEvent evs \<Longrightarrow> multipleDeleteCalls evs = []"
  by (induction evs rule: multipleDeleteCalls.induct) simp_all

lemma operation_no_entityDeleteCalls:
  "list_all isOperationEvent evs \<Longrightarrow> entityDeleteCalls evs = []"
  by (induction evs rule: entityDeleteCalls.induct) simp_all

lemma operation_no_closeCalls:
  "list_all isOperationEvent evs \<Longrightarrow> closeCalls evs = 0"
  by (induction evs rule: closeCalls.induct) simp_all

lemma operation_notifications:
  "list_all isOperationEvent evs \<Longrightarrow>
     list_all (\<lambda>m. snack_type m = SnackError \<and> snack_title m \<noteq> None) (notifications evs)"
  by (induction evs rule: notifications.induct) simp_all

lemma titled_filter:
  "list_all (\<lambda>m. snack_type m = SnackError \<and> snack_title m \<noteq> None) ms \<Longrightarrow>
     filter (\<lambda>m. snack_title m = None) ms = []"
  by (induction ms) simp_all

lemma hookEvents_operation: "list_all isOperationEvent (hookEvents ph r)"
  by (cases r) (simp_all add: hookEvents_def)

lemma dialogHandlers_operation:
  "list_all isOperationEvent (h_onDeleteSuccess (dialogHandlers sch) e)"
  "list_all isOperationEvent (h_onDeleteFailure (dialogHandlers sch) e err)"
  "list_all isOperationEvent (h_onPreDeleteHookError (dialogHandlers sch) e err)"
  "list_all isOperationEvent (h_onDeleteSuccessHookError (dialogHandlers sch) e err)"
  by (simp_all add: dialogHandlers_def onDeleteSuccess_def onDeleteFailure_def
        onPreDeleteHookError_def onDeleteSuccessHookError_def)

lemma performDeleteOp_operation:
  "list_all isOperationEvent (fst (fst (performDeleteOp db sch path (dialogHandlers sch) e s)))"
  unfolding performDeleteOp_def Let_def
  by (simp add: hookEvents_operation dialogHandlers_operation
        split: hookResult.split sum.split)

lemma deleteEntity_events:
  "fst (fst (deleteEntity db sch path hs e s)) = fst (fst (performDeleteOp db sch path hs e s))"
  by (simp add: deleteEntity_def split: prod.split)

lemma performDelete_operation:
  "list_all isOperationEvent (fst (fst (performDelete db p e s)))"
  by (simp add: performDelete_def deleteEntity_events performDeleteOp_operation)

lemma all_true_count: "list_all (\<lambda>b. b) rs \<longleftrightarrow> length (filter (\<lambda>b. b) rs) = length rs"
proof (induction rs)
  case Nil
  show ?case by simp
next
  case (Cons a rs)
  then show ?case
    using length_filter_le [of "\<lambda>b. b" rs] by (auto simp del: length_filter_le)
qed

lemma ex_true_count: "list_ex (\<lambda>b. b) rs \<longleftrightarrow> 0 < length (filter (\<lambda>b. b) rs)"
  by (induction rs) auto

section \<open>The two segments of a delete\<close>

text \<open>
  Run one after the other with nothing in between, the two segments are the delete
  operation.
\<close>

lemma performDeleteOp_split:
  "performDeleteOp db sch path hs e s =
     (case startDelete sch path hs e of
        (ev1, Settled r) \<Rightarrow> ((ev1, r), s)
      | (ev1, InFlight e') \<Rightarrow>
          (case completeDelete db sch path hs e' s of
             ((ev2, r), s') \<Rightarrow> ((ev1 @ ev2, r), s')))"
  unfolding performDeleteOp_def startDelete_def completeDelete_def Let_def
  by (simp split: hookResult.split sum.split)

lemma startDelete_operation:
  "list_all isOperationEvent (fst (startDelete sch path (dialogHandlers sch) e))"
  unfolding startDelete_def Let_def
  by (simp add: hookEvents_operation dialogHandlers_operation split: hookResult.split)

lemma completeDelete_operation:
  "list_all isOperationEvent (fst (fst (completeDelete db sch path (dialogHandlers sch) e s)))"
  unfolding completeDelete_def Let_def
  by (simp add: hookEvents_operation dialogHandlers_operation split: hookResult.split sum.split)

lemma startDelete_notifications:
  "length (notifications (fst (startDelete sch path (dialogHandlers sch) e))) =
     length (filter reported (outcomes [snd (startDelete sch path (dialogHandlers sch) e)]))"
  unfolding startDelete_def Let_def
  by (simp add: notifications_append hookEvents_def dialogHandlers_def
        onPreDeleteHookError_def reported_def split: hookResult.split)

lemma completeDelete_notifications:
  "length (notifications (fst (fst (completeDelete db sch path (dialogHandlers sch) e s)))) =
     (if reported (snd (fst (completeDelete db sch path (dialogHandlers sch) e s))) then 1 else 0)"
  unfolding completeDelete_def Let_def
  by (simp add: notifications_append hookEvents_def dialogHandlers_def onDeleteSuccess_def
        onDeleteFailure_def onDeleteSuccessHookError_def reported_def
        split: hookResult.split sum.split)

lemma outcomes_append: "outcomes (xs @ ys) = outcomes xs @ outcomes ys"
  by (induction xs rule: outcomes.induct) simp_all

lemma outcomes_all_settled: "list_all isSettled ts \<Longrightarrow> length (outcomes ts) = length ts"
  by (induction ts rule: outcomes.induct) simp_all

lemma outcomes_settle:
  assumes "i < length ts" and "ts ! i = InFlight e"
  shows "length (filter P (outcomes (ts[i := Settled r]))) =
           length (filter P (outcomes ts)) + (if P r then 1 else 0)"
  using assms
proof (induction ts arbitrary: i rule: outcomes.induct)
  case 1
  then show ?case by simp
next
  case (2 e' ts)
  then show ?case by (cases i) simp_all
next
  case (3 r' ts)
  then show ?case by (cases i) simp_all
qed

lemma launch_length: "launch f xs = (evs, ts) \<Longrightarrow> length ts = length xs"
  by (induction xs arbitrary: evs ts) (auto split: prod.splits)

lemma launch_operation:
  assumes "launch (startDelete sch path (dialogHandlers sch)) es = (evs, ts)"
  shows "list_all isOperationEvent evs"
  using assms
proof (induction es arbitrary: evs ts)
  case Nil
  then show ?case by simp
next
  case (Cons e es)
  obtain ev t where one: "startDelete sch path (dialogHandlers sch) e = (ev, t)"
    by (metis prod.exhaust)
  obtain evs' ts' where rest: "launch (startDelete sch path (dialogHandlers sch)) es = (evs', ts')"
    by (metis prod.exhaust)
  have "list_all isOperationEvent ev"
    using startDelete_operation [of sch path e] one by simp
  moreover have "list_all isOperationEvent evs'"
    using Cons.IH [OF rest] .
  ultimately show ?case using Cons.prems one rest by auto
qed

lemma launch_notifications:
  assumes "launch (startDelete sch path (dialogHandlers sch)) es = (evs, ts)"
  shows "length (notifications evs) = length (filter reported (outcomes ts))"
  using assms
proof (induction es arbitrary: evs ts)
  case Nil
  then show ?case by simp
next
  case (Cons e es)
  obtain ev t where one: "startDelete sch path (dialogHandlers sch) e = (ev, t)"
    by (metis prod.exhaust)
  obtain evs' ts' where rest: "launch (startDelete sch path (dialogHandlers sch)) es = (evs', ts')"
    by (metis prod.exhaust)
  have a: "length (notifications ev) = length (filter reported (outcomes [t]))"
    using startDelete_notifications [of sch path e] one by simp
  have b: "length (notifications evs') = length (filter reported (outcomes ts'))"
    using Cons.IH [OF rest] .
  have "evs = ev @ evs'" "ts = t # ts'"
    using Cons.prems one rest by auto
  then show ?case
    using a b outcomes_append [of "[t]" ts'] by (simp add: notifications_append)
qed

section \<open>The batch under every schedule\<close>

lemma thenWhenAll_invariant:
  assumes "length (tasks b) = length es" and "\<not> continued b"
    and "list_all isOperationEvent (trace b)"
    and "length (notifications (trace b)) = length (filter reported (outcomes (tasks b)))"
  shows "batchInvariant p es (thenWhenAll p es b)"
proof (cases "list_all isSettled (tasks b)")
  case True
  then have "thenWhenAll p es b =
      b\<lparr>trace := trace b @ thenMultiple p es (map (\<lambda>r. isSuccess (verdict r)) (outcomes (tasks b))),
        continued := True\<rparr>"
    using assms(2) by (simp add: thenWhenAll_def)
  then show ?thesis
    using True assms unfolding batchInvariant_def by auto
next
  case False
  then have "thenWhenAll p es b = b" by (simp add: thenWhenAll_def)
  then show ?thesis
    using False assms unfolding batchInvariant_def by auto
qed

lemma resolve_continued:
  assumes "list_all isSettled (tasks b)"
  shows "resolve db p i b = b"
proof (cases "i < length (tasks b)")
  case True
  then have "isSettled (tasks b ! i)"
    using assms by (simp add: list_all_length)
  then show ?thesis
    using True by (cases "tasks b ! i") (simp_all add: resolve_def)
next
  case False
  then show ?thesis by (simp add: resolve_def)
qed

lemma step_invariant:
  assumes "batchInvariant p es b"
  shows "batchInvariant p es (thenWhenAll p es (resolve db p i b))"
proof (cases "continued b")
  case True
  then have all: "list_all isSettled (tasks b)"
    using assms by (simp add: batchInvariant_def)
  have "resolve db p i b = b" using all by (rule resolve_continued)
  moreover have "thenWhenAll p es b = b" using True by (simp add: thenWhenAll_def)
  ultimately show ?thesis using assms by simp
next
  case False
  from assms False have len: "length (tasks b) = length es"
    and ops: "list_all isOperationEvent (trace b)"
    and cnt: "length (notifications (trace b)) = length (filter reported (outcomes (tasks b)))"
    by (auto simp: batchInvariant_def)
  let ?b' = "resolve db p i b"
  have "length (tasks ?b') = length es \<and> \<not> continued ?b'
        \<and> list_all isOperationEvent (trace ?b')
        \<and> length (notifications (trace ?b')) = length (filter reported (outcomes (tasks ?b')))"
  proof (cases "i < length (tasks b)")
    case out: False
    then have "?b' = b" by (simp add: resolve_def)
    then show ?thesis using len False ops cnt by simp
  next
    case inside: True
    show ?thesis
    proof (cases "tasks b ! i")
      case (Settled r)
      then have "?b' = b" using inside by (simp add: resolve_def)
      then show ?thesis using len False ops cnt by simp
    next
      case (InFlight e)
      obtain evs r s' where fin:
        "completeDelete db (schema p) (collectionPath p) (dialogHandlers (schema p)) e (batchStore b)
           = ((evs, r), s')"
        by (metis prod.exhaust)
      have b': "?b' = b\<lparr>tasks := (tasks b)[i := Settled r], batchStore := s',
                        trace := trace b @ evs\<rparr>"
        using inside InFlight fin by (simp add: resolve_def)
      have evs_ops: "list_all isOperationEvent evs"
        using completeDelete_operation [of db "schema p" "collectionPath p" e "batchStore b"] fin
        by simp
      have evs_cnt: "length (notifications evs) = (if reported r then 1 else 0)"
        using completeDelete_notifications [of db "schema p" "collectionPath p" e "batchStore b"] fin
        by simp
      have "length (filter reported (outcomes ((tasks b)[i := Settled r]))) =
              length (filter reported (outcomes (tasks b))) + (if reported r then 1 else 0)"
        using inside InFlight by (rule outcomes_settle)
      then show ?thesis
        using b' len False ops cnt evs_ops evs_cnt by (simp add: notifications_append)
    qed
  qed
  then show ?thesis by (simp add: thenWhenAll_invariant)
qed

lemma fold_invariant:
  assumes "batchInvariant p es b"
  shows "batchInvariant p es (fold (\<lambda>i b. thenWhenAll p es (resolve db p i b)) sched b)"
  using assms by (induction sched arbitrary: b) (simp_all add: step_invariant)

lemma promiseAllThen_invariant: "batchInvariant p es (promiseAllThen db p es sched s)"
proof -
  obtain evs ts where l:
    "launch (startDelete (schema p) (collectionPath p) (dialogHandlers (schema p))) es = (evs, ts)"
    by (metis prod.exhaust)
  let ?start = "\<lparr>tasks = ts, batchStore = s, trace = evs, continued = False\<rparr>"
  have "batchInvariant p es (thenWhenAll p es ?start)"
    using launch_length [OF l] launch_operation [OF l] launch_notifications [OF l]
    by (intro thenWhenAll_invariant) simp_all
  then show ?thesis
    unfolding promiseAllThen_def l by (simp add: fold_invariant)
qed

text \<open>
  Every task that the schedule names is settled at the end, so a schedule that names
  every task lets the continuation run.
\<close>

lemma resolve_length: "length (tasks (resolve db p i b)) = length (tasks b)"
  by (simp add: resolve_def split: task.split prod.split)

lemma thenWhenAll_tasks: "tasks (thenWhenAll p es b) = tasks b"
  by (simp add: thenWhenAll_def)

lemma resolve_keeps_settled:
  assumes "j < length (tasks b)" and "isSettled (tasks b ! j)"
  shows "isSettled (tasks (resolve db p i b) ! j)"
  using assms
  by (cases "i = j") (auto simp: resolve_def nth_list_update split: task.split prod.split)

lemma resolve_settles:
  assumes "i < length (tasks b)"
  shows "isSettled (tasks (resolve db p i b) ! i)"
  using assms by (auto simp: resolve_def split: task.split prod.split)

lemma fold_length:
  "length (tasks (fold (\<lambda>i b. thenWhenAll p es (resolve db p i b)) sched b)) = length (tasks b)"
  by (induction sched arbitrary: b) (simp_all add: thenWhenAll_tasks resolve_length)

lemma fold_keeps_settled:
  assumes "j < length (tasks b)" and "isSettled (tasks b ! j)"
  shows "isSettled (tasks (fold (\<lambda>i b. thenWhenAll p es (resolve db p i b)) sched b) ! j)"
  using assms
  by (induction sched arbitrary: b)
     (simp_all add: thenWhenAll_tasks resolve_length resolve_keeps_settled)

lemma fold_settles:
  assumes "j \<in> set sched" and "j < length (tasks b)"
  shows "isSettled (tasks (fold (\<lambda>i b. thenWhenAll p es (resolve db p i b)) sched b) ! j)"
  using assms
proof (induction sched arbitrary: b)
  case Nil
  then show ?case by simp
next
  case (Cons i sched)
  let ?b' = "thenWhenAll p es (resolve db p i b)"
  have len: "j < length (tasks ?b')"
    using Cons.prems(2) by (simp add: thenWhenAll_tasks resolve_length)
  show ?case
  proof (cases "j = i")
    case True
    then have "isSettled (tasks ?b' ! j)"
      using Cons.prems(2) by (simp add: thenWhenAll_tasks resolve_settles)
    then show ?thesis using len by (simp add: fold_keeps_settled)
  next
    case False
    then have "j \<in> set sched" using Cons.prems(1) by simp
    then show ?thesis using len Cons.IH by simp
  qed
qed

lemma answersAll_continued:
  assumes "answersAll sched (length es)"
  shows "continued (promiseAllThen db p es sched s)"
proof -
  obtain evs ts where l:
    "launch (startDelete (schema p) (collectionPath p) (dialogHandlers (schema p))) es = (evs, ts)"
    by (metis prod.exhaust)
  let ?start = "thenWhenAll p es \<lparr>tasks = ts, batchStore = s, trace = evs, continued = False\<rparr>"
  let ?final = "promiseAllThen db p es sched s"
  have b: "?final = fold (\<lambda>i b. thenWhenAll p es (resolve db p i b)) sched ?start"
    unfolding promiseAllThen_def l by simp
  have len0: "length (tasks ?start) = length es"
    using launch_length [OF l] by (simp add: thenWhenAll_tasks)
  have len: "length (tasks ?final) = length es"
    using len0 by (simp add: b fold_length)
  have "\<forall>j < length (tasks ?final). isSettled (tasks ?final ! j)"
  proof (intro allI impI)
    fix j assume "j < length (tasks ?final)"
    then have j: "j < length es" using len by simp
    then have "j \<in> set sched"
      using assms by (simp add: answersAll_def list_all_iff)
    moreover have "j < length (tasks ?start)" using j len0 by simp
    ultimately have
      "isSettled (tasks (fold (\<lambda>i b. thenWhenAll p es (resolve db p i b)) sched ?start) ! j)"
      by (rule fold_settles)
    then show "isSettled (tasks ?final ! j)" by (simp only: b)
  qed
  then have "list_all isSettled (tasks ?final)" by (simp add: list_all_length)
  then show ?thesis
    using promiseAllThen_invariant [of p es db sched s] by (simp add: batchInvariant_def)
qed

lemma batch_results_length:
  assumes "continued (promiseAllThen db p es sched s)"
  shows "length (batchResults db p es sched s) = length es"
proof -
  have inv: "batchInvariant p es (promiseAllThen db p es sched s)"
    by (rule promiseAllThen_invariant)
  then have "list_all isSettled (tasks (promiseAllThen db p es sched s))"
    and "length (tasks (promiseAllThen db p es sched s)) = length es"
    using assms by (simp_all add: batchInvariant_def)
  then show ?thesis
    by (simp add: batchResults_def outcomes_all_settled)
qed

text \<open>
  The trace only grows: the trace under a schedule is the beginning of the trace under
  any longer one.
\<close>

lemma step_prefix: "prefix (trace b) (trace (thenWhenAll p es (resolve db p i b)))"
  by (auto simp: thenWhenAll_def resolve_def prefix_def split: task.split prod.split)

lemma fold_prefix:
  "prefix (trace b) (trace (fold (\<lambda>i b. thenWhenAll p es (resolve db p i b)) sched b))"
proof (induction sched arbitrary: b)
  case Nil
  show ?case by simp
next
  case (Cons i sched)
  have "prefix (trace b) (trace (thenWhenAll p es (resolve db p i b)))"
    by (rule step_prefix)
  also have "prefix \<dots> (trace (fold (\<lambda>i b. thenWhenAll p es (resolve db p i b)) sched
                              (thenWhenAll p es (resolve db p i b))))"
    by (rule Cons.IH)
  finally show ?case by simp
qed

lemma promiseAllThen_prefix:
  "prefix (trace (promiseAllThen db p es sched s)) (trace (promiseAllThen db p es (sched @ later) s))"
  unfolding promiseAllThen_def by (simp add: fold_prefix split: prod.split)

section \<open>The Ok action and the renders\<close>

lemma handleOk_batch:
  assumes "entityOrEntities st = Some (EntityArray es)" and "truthy (multipleEntities st)"
  shows "handleOk db sched p st s =
           \<lparr>events = SetLoading True # trace (promiseAllThen db p es sched s),
            dialog = (if continued (promiseAllThen db p es sched s)
                      then setLoading False (setLoading True st) else setLoading True st),
            store = batchStore (promiseAllThen db p es sched s),
            completed = continued (promiseAllThen db p es sched s)\<rparr>"
  using assms by (simp add: handleOk_def Let_def)

lemma handleOk_single:
  assumes "entityOrEntities st = Some (OneEntity e)" and "\<not> truthy (multipleEntities st)"
    and "performDelete db p e s = ((evs, success), s')"
  shows "handleOk db sched p st s =
           \<lparr>events = [SetLoading True] @ evs @ thenSingle p e success,
            dialog = setLoading False (setLoading True st), store = s', completed = True\<rparr>"
  using assms by (simp add: handleOk_def)

lemma setLoading_False_True: "loading (setLoading False (setLoading True st)) = False"
  by (simp add: setLoading_def render_def)

lemma batch_shape:
  assumes "entityOrEntities st = Some (EntityArray es)" and "truthy (multipleEntities st)"
  obtains ops where "list_all isOperationEvent ops"
    and "length (notifications ops) =
           length (filter reported (outcomes (tasks (promiseAllThen db p es sched s))))"
    and "events (handleOk db sched p st s) =
           SetLoading True # ops @
             (if completed (handleOk db sched p st s)
              then thenMultiple p es (batchResults db p es sched s) else [])"
    and "completed (handleOk db sched p st s) =
           list_all isSettled (tasks (promiseAllThen db p es sched s))"
    and "length (tasks (promiseAllThen db p es sched s)) = length es"
proof -
  have inv: "batchInvariant p es (promiseAllThen db p es sched s)"
    by (rule promiseAllThen_invariant)
  then obtain ops where ops: "list_all isOperationEvent ops"
    and cnt: "length (notifications ops) =
           length (filter reported (outcomes (tasks (promiseAllThen db p es sched s))))"
    and tr: "trace (promiseAllThen db p es sched s) =
           ops @ (if continued (promiseAllThen db p es sched s)
                  then thenMultiple p es (map (\<lambda>r. isSuccess (verdict r))
                         (outcomes (tasks (promiseAllThen db p es sched s))))
                  else [])"
    unfolding batchInvariant_def by blast
  from inv have cont: "continued (promiseAllThen db p es sched s) =
            list_all isSettled (tasks (promiseAllThen db p es sched s))"
    and len: "length (tasks (promiseAllThen db p es sched s)) = length es"
    unfolding batchInvariant_def by blast+
  show ?thesis
  proof (rule that [OF ops cnt _ _ len])
    show "events (handleOk db sched p st s) =
           SetLoading True # ops @
             (if completed (handleOk db sched p st s)
              then thenMultiple p es (batchResults db p es sched s) else [])"
      using tr by (simp add: handleOk_batch [OF assms] batchResults_def)
    show "completed (handleOk db sched p st s) =
           list_all isSettled (tasks (promiseAllThen db p es sched s))"
      using cont by (simp add: handleOk_batch [OF assms])
  qed
qed

lemma batch_notifications_shape:
  assumes "entityOrEntities st = Some (EntityArray es)" and "truthy (multipleEntities st)"
    and "completed (handleOk db sched p st s)"
  obtains items where
    "notifications (events (handleOk db sched p st s)) =
       items @ [multipleSnackbar (schema p) (batchResults db p es sched s)]"
    and "list_all (\<lambda>m. snack_type m = SnackError \<and> snack_title m \<noteq> None) items"
    and "length items =
           length (filter reported (outcomes (tasks (promiseAllThen db p es sched s))))"
proof -
  obtain ops where ops: "list_all isOperationEvent ops"
    and cnt: "length (notifications ops) =
           length (filter reported (outcomes (tasks (promiseAllThen db p es sched s))))"
    and ev: "events (handleOk db sched p st s) =
           SetLoading True # ops @
             (if completed (handleOk db sched p st s)
              then thenMultiple p es (batchResults db p es sched s) else [])"
    using batch_shape [OF assms(1,2), of db p sched s] by blast
  have "notifications (events (handleOk db sched p st s)) =
       notifications ops @ [multipleSnackbar (schema p) (batchResults db p es sched s)]"
    using assms(3) by (simp add: ev notifications_append thenMultiple_def)
  moreover have "list_all (\<lambda>m. snack_type m = SnackError \<and> snack_title m \<noteq> None) (notifications ops)"
    using ops by (rule operation_notifications)
  ultimately show ?thesis using cnt that by blast
qed

text \<open>
  The callback of a batch gets the list that the render copied from the ref, whatever
  the results.
\<close>

lemma batch_callback_render_time_list:
  assumes "entityOrEntities st = Some (EntityArray es)" and "truthy (multipleEntities st)"
  shows "multipleDeleteCalls (events (handleOk db sched p st s)) =
           (if completed (handleOk db sched p st s) \<and> onMultipleEntitiesDelete p
            then [(collectionPath p, es)] else [])"
proof -
  obtain ops where ops: "list_all isOperationEvent ops"
    and ev: "events (handleOk db sched p st s) =
           SetLoading True # ops @
             (if completed (handleOk db sched p st s)
              then thenMultiple p es (batchResults db p es sched s) else [])"
    using batch_shape [OF assms, of db p sched s] by blast
  show ?thesis
    by (simp add: ev multipleDeleteCalls_append operation_no_multipleDeleteCalls [OF ops]
          thenMultiple_def)
qed

lemma agrees_simps [simp]:
  "agrees flag None = (flag = None)"
  "agrees flag (Some x) = (flag = Some (isArray x))"
  by (simp_all add: agrees_def)

lemma initialState_consistent: "consistent initialState"
  by (simp add: consistent_def initialState_def)

lemma render_consistent: "consistent st \<Longrightarrow> consistent (render st)"
  by (cases "entityOrEntitiesRef st") (simp_all add: consistent_def render_def)

lemma setLoading_consistent: "consistent st \<Longrightarrow> consistent (setLoading v st)"
  by (cases "entityOrEntitiesRef st") (auto simp: consistent_def setLoading_def render_def)

lemma useEffect_consistent: "consistent st \<Longrightarrow> consistent (useEffect p st)"
  by (cases "entityOrEntitiesToDelete p"; cases "entityOrEntities st")
     (auto simp: consistent_def useEffect_def setMultipleEntities_def render_def)

lemma receiveProps_consistent: "consistent st \<Longrightarrow> consistent (receiveProps p st)"
  by (simp add: receiveProps_def useEffect_consistent render_consistent)

lemma handleOk_consistent: "consistent st \<Longrightarrow> consistent (dialog (handleOk db sched p st s))"
  by (cases "entityOrEntities st")
     (auto simp: handleOk_def Let_def setLoading_consistent
           split: entityOrEntities.splits prod.splits)

text \<open>
  In a state that the dialog reaches, the Ok action runs its continuation as soon as the
  store has answered every delete.
\<close>

lemma consistent_completed:
  assumes "consistent st"
    and "\<And>es. entityOrEntities st = Some (EntityArray es) \<Longrightarrow> answersAll sched (length es)"
  shows "completed (handleOk db sched p st s)"
proof (cases "entityOrEntities st")
  case None
  then show ?thesis by (simp add: handleOk_def)
next
  case (Some x)
  show ?thesis
  proof (cases x)
    case (OneEntity e)
    then have "\<not> truthy (multipleEntities st)"
      using assms(1) Some by (simp add: consistent_def truthy_def)
    then show ?thesis
      using Some OneEntity by (simp add: handleOk_def split: prod.splits)
  next
    case (EntityArray es)
    then have t: "truthy (multipleEntities st)"
      using assms(1) Some by (simp add: consistent_def truthy_def)
    have c: "entityOrEntities st = Some (EntityArray es)"
      using Some EntityArray by simp
    show ?thesis
      by (simp add: handleOk_batch [OF c t] answersAll_continued [OF assms(2) [OF c]])
  qed
qed

text \<open>
  When the effect changes \<^verbatim>\<open>multipleEntities\<close>, a render follows it and the copy is the
  new target; when it does not, no render follows and the copy stays what the render
  before the effect took.
\<close>

lemma receiveProps_fresh:
  assumes "entityOrEntitiesToDelete p = Some x"
    and "multipleEntities st \<noteq> Some (isArray (normalise x))"
  shows "entityOrEntities (receiveProps p st) = Some (normalise x)"
  using assms
  by (simp add: receiveProps_def useEffect_def setMultipleEntities_def render_def)

lemma receiveProps_stale:
  assumes "entityOrEntitiesToDelete p = Some x"
    and "multipleEntities st = Some (isArray (normalise x))"
  shows "entityOrEntities (receiveProps p st) = entityOrEntitiesRef st"
    and "entityOrEntitiesRef (receiveProps p st) = Some (normalise x)"
  using assms
  by (simp_all add: receiveProps_def useEffect_def setMultipleEntities_def render_def)

lemma one_element_array_fresh:
  assumes "entityOrEntitiesToDelete p = Some (EntityArray [e])"
    and "multipleEntities st \<noteq> Some False"
  shows "multipleEntities (receiveProps p st) = Some False
       \<and> entityOrEntities (receiveProps p st) = Some (OneEntity e)
       \<and> dialogTitle p (receiveProps p st) = ''Would you like to delete this '' @ name (schema p) @ ''?''
       \<and> dialogContent (receiveProps p st) = Some (EntityPreview e)
       \<and> multipleDeleteCalls (events (handleOk db sched p (receiveProps p st) s)) = []
       \<and> entityDeleteCalls (events (handleOk db sched p (receiveProps p st) s)) =
           (if snd (fst (performDelete db p e s)) \<and> onEntityDelete p
            then [(collectionPath p, e)] else [])"
proof -
  have flag: "multipleEntities (receiveProps p st) = Some False"
    using assms by (simp add: receiveProps_def useEffect_def setMultipleEntities_def render_def)
  have copy: "entityOrEntities (receiveProps p st) = Some (OneEntity e)"
    using receiveProps_fresh [OF assms(1)] assms(2) by simp
  have falsy: "\<not> truthy (multipleEntities (receiveProps p st))"
    by (simp add: flag truthy_def)
  obtain evs success s' where run: "performDelete db p e s = ((evs, success), s')"
    by (metis prod.exhaust)
  have ops: "list_all isOperationEvent evs"
    using performDelete_operation [of db p e s] run by simp
  have ev: "events (handleOk db sched p (receiveProps p st) s)
              = [SetLoading True] @ evs @ thenSingle p e success"
    by (simp add: handleOk_single [OF copy falsy run])
  have "dialogTitle p (receiveProps p st) = ''Would you like to delete this '' @ name (schema p) @ ''?''"
    using falsy by (simp add: dialogTitle_def)
  moreover have "dialogContent (receiveProps p st) = Some (EntityPreview e)"
    using falsy by (simp add: dialogContent_def content_def copy)
  moreover have "multipleDeleteCalls (events (handleOk db sched p (receiveProps p st) s)) = []"
    by (simp add: ev multipleDeleteCalls_append operation_no_multipleDeleteCalls [OF ops]
          thenSingle_def)
  moreover have "entityDeleteCalls (events (handleOk db sched p (receiveProps p st) s)) =
           (if snd (fst (performDelete db p e s)) \<and> onEntityDelete p
            then [(collectionPath p, e)] else [])"
    by (simp add: ev run entityDeleteCalls_append operation_no_entityDeleteCalls [OF ops]
          thenSingle_def)
  ultimately show ?thesis using flag copy by simp
qed

section \<open>Runs on the products\<close>

lemma product_id: "entity_id (product i) = i"
  by (simp add: product_def)

lemma batchProps_fields:
  "schema batchProps = productSchema" "collectionPath batchProps = ''products''"
  "onMultipleEntitiesDelete batchProps = True" "onEntityDelete batchProps = True"
  "entityOrEntitiesToDelete batchProps = Some (EntityArray threeProducts)"
  by (simp_all add: batchProps_def productProps_def)

lemma productSchema_fields:
  "name productSchema = ''Product''" "onPreDelete productSchema = None"
  "onDelete productSchema = None" "customId productSchema = None"
  by (simp_all add: productSchema_def)

lemma lockedBatchProps_fields:
  "schema lockedBatchProps = lockedSchema" "collectionPath lockedBatchProps = ''products''"
  "onMultipleEntitiesDelete lockedBatchProps = True"
  "entityOrEntitiesToDelete lockedBatchProps = Some (EntityArray threeProducts)"
  by (simp_all add: lockedBatchProps_def batchProps_def productProps_def)

lemma memoryStore_delete:
  "store_delete memoryStore path i docs =
     (if (path, i) \<in> set docs then Inr (removeAll (path, i) docs)
      else Inl (Thrown (Some ''not found'')))"
  by (simp add: memoryStore_def)

lemma start_product:
  "startDelete productSchema ''products'' (dialogHandlers productSchema) (product i) =
     ([StoreDeleteCall ''products'' i], InFlight (product i))"
  by (simp add: startDelete_def invokeIfPresent_def hookEvents_def productSchema_fields product_id)

lemma complete_product:
  "completeDelete memoryStore productSchema ''products'' (dialogHandlers productSchema) (product i) docs =
     (if (''products'', i) \<in> set docs
      then (([ConsoleDebug], \<lparr>verdict = OpSuccess (product i), hookError = None\<rparr>),
            removeAll (''products'', i) docs)
      else ((onDeleteFailure productSchema (product i) (Thrown (Some ''not found'')),
             \<lparr>verdict = OpFailure (product i) (StoreFailure (Thrown (Some ''not found''))),
              hookError = None\<rparr>), docs))"
  by (simp add: completeDelete_def invokeIfPresent_def hookEvents_def productSchema_fields
        product_id memoryStore_delete dialogHandlers_def onDeleteSuccess_def)

lemma start_locked:
  "startDelete lockedSchema ''products'' (dialogHandlers lockedSchema) (product i) =
     (HookCall PreDelete # onPreDeleteHookError lockedSchema (product i) (Thrown (Some ''refused'')),
      Settled \<lparr>verdict = OpFailure (product i) (HookFailure PreDelete (Thrown (Some ''refused''))),
               hookError = None\<rparr>)"
  by (simp add: startDelete_def invokeIfPresent_def hookEvents_def lockedSchema_def raising_def
        dialogHandlers_def)

lemma performDelete_product:
  "performDelete memoryStore (productProps x) (product i) docs =
     (if (''products'', i) \<in> set docs
      then (([StoreDeleteCall ''products'' i, ConsoleDebug], True), removeAll (''products'', i) docs)
      else ((StoreDeleteCall ''products'' i
               # onDeleteFailure productSchema (product i) (Thrown (Some ''not found'')), False),
            docs))"
  by (simp add: performDelete_def deleteEntity_def performDeleteOp_split productProps_def
        start_product complete_product)

lemma resolve_literal:
  "resolve db p i \<lparr>tasks = ts, batchStore = s, trace = tr, continued = c\<rparr> =
     (if i < length ts then
        (case ts ! i of
           InFlight e \<Rightarrow>
             (case completeDelete db (schema p) (collectionPath p) (dialogHandlers (schema p)) e s of
                ((evs, r), s') \<Rightarrow>
                  \<lparr>tasks = ts[i := Settled r], batchStore = s', trace = tr @ evs, continued = c\<rparr>)
         | Settled _ \<Rightarrow> \<lparr>tasks = ts, batchStore = s, trace = tr, continued = c\<rparr>)
      else \<lparr>tasks = ts, batchStore = s, trace = tr, continued = c\<rparr>)"
  by (simp add: resolve_def split: task.split prod.split)

lemma thenWhenAll_literal:
  "thenWhenAll p es \<lparr>tasks = ts, batchStore = s, trace = tr, continued = c\<rparr> =
     (if \<not> c \<and> list_all isSettled ts then
        \<lparr>tasks = ts, batchStore = s,
         trace = tr @ thenMultiple p es (map (\<lambda>r. isSuccess (verdict r)) (outcomes ts)),
         continued = True\<rparr>
      else \<lparr>tasks = ts, batchStore = s, trace = tr, continued = c\<rparr>)"
  by (simp add: thenWhenAll_def)

lemma run_twoDocs: "promiseAllThen memoryStore batchProps threeProducts inOrder twoDocs =
  \<lparr>tasks = [Settled \<lparr>verdict = OpSuccess (product ''1''), hookError = None\<rparr>,
             Settled \<lparr>verdict = OpFailure (product ''2'') (StoreFailure (Thrown (Some ''not found''))),
                      hookError = None\<rparr>,
             Settled \<lparr>verdict = OpSuccess (product ''3''), hookError = None\<rparr>],
    batchStore = [],
    trace = [StoreDeleteCall ''products'' ''1'', StoreDeleteCall ''products'' ''2'',
             StoreDeleteCall ''products'' ''3'', ConsoleDebug]
            @ onDeleteFailure productSchema (product ''2'') (Thrown (Some ''not found''))
            @ [ConsoleDebug]
            @ thenMultiple batchProps threeProducts [True, False, True],
    continued = True\<rparr>"
  by (simp add: promiseAllThen_def threeProducts_def inOrder_def twoDocs_def start_product
        batchProps_fields resolve_literal thenWhenAll_literal complete_product)

lemma run_noDocs: "promiseAllThen memoryStore batchProps threeProducts inOrder [] =
  \<lparr>tasks = [Settled \<lparr>verdict = OpFailure (product ''1'') (StoreFailure (Thrown (Some ''not found''))),
                      hookError = None\<rparr>,
             Settled \<lparr>verdict = OpFailure (product ''2'') (StoreFailure (Thrown (Some ''not found''))),
                      hookError = None\<rparr>,
             Settled \<lparr>verdict = OpFailure (product ''3'') (StoreFailure (Thrown (Some ''not found''))),
                      hookError = None\<rparr>],
    batchStore = [],
    trace = [StoreDeleteCall ''products'' ''1'', StoreDeleteCall ''products'' ''2'',
             StoreDeleteCall ''products'' ''3'']
            @ onDeleteFailure productSchema (product ''1'') (Thrown (Some ''not found''))
            @ onDeleteFailure productSchema (product ''2'') (Thrown (Some ''not found''))
            @ onDeleteFailure productSchema (product ''3'') (Thrown (Some ''not found''))
            @ thenMultiple batchProps threeProducts [False, False, False],
    continued = True\<rparr>"
  by (simp add: promiseAllThen_def threeProducts_def inOrder_def start_product
        batchProps_fields resolve_literal thenWhenAll_literal complete_product)

lemma run_locked: "promiseAllThen memoryStore lockedBatchProps threeProducts [] twoDocs =
  \<lparr>tasks = [Settled \<lparr>verdict = OpFailure (product ''1'') (HookFailure PreDelete (Thrown (Some ''refused''))),
                      hookError = None\<rparr>,
             Settled \<lparr>verdict = OpFailure (product ''2'') (HookFailure PreDelete (Thrown (Some ''refused''))),
                      hookError = None\<rparr>,
             Settled \<lparr>verdict = OpFailure (product ''3'') (HookFailure PreDelete (Thrown (Some ''refused''))),
                      hookError = None\<rparr>],
    batchStore = twoDocs,
    trace = HookCall PreDelete # onPreDeleteHookError lockedSchema (product ''1'') (Thrown (Some ''refused''))
            @ HookCall PreDelete # onPreDeleteHookError lockedSchema (product ''2'') (Thrown (Some ''refused''))
            @ HookCall PreDelete # onPreDeleteHookError lockedSchema (product ''3'') (Thrown (Some ''refused''))
            @ thenMultiple lockedBatchProps threeProducts [False, False, False],
    continued = True\<rparr>"
  by (simp add: promiseAllThen_def threeProducts_def start_locked
        lockedBatchProps_fields thenWhenAll_literal)

lemma outcomes_twoDocs:
  "outcomes (tasks (promiseAllThen memoryStore batchProps threeProducts inOrder twoDocs)) =
     [\<lparr>verdict = OpSuccess (product ''1''), hookError = None\<rparr>,
      \<lparr>verdict = OpFailure (product ''2'') (StoreFailure (Thrown (Some ''not found''))),
       hookError = None\<rparr>,
      \<lparr>verdict = OpSuccess (product ''3''), hookError = None\<rparr>]"
  by (simp add: run_twoDocs)

lemma shown_batch:
  "receiveProps batchProps initialState =
     \<lparr>loading = False, entityOrEntitiesRef = Some (EntityArray threeProducts),
      multipleEntities = Some True, entityOrEntities = Some (EntityArray threeProducts)\<rparr>"
  by (simp add: receiveProps_def useEffect_def render_def setMultipleEntities_def initialState_def
        batchProps_fields threeProducts_def)

lemma shown_lockedBatch:
  "receiveProps lockedBatchProps initialState =
     \<lparr>loading = False, entityOrEntitiesRef = Some (EntityArray threeProducts),
      multipleEntities = Some True, entityOrEntities = Some (EntityArray threeProducts)\<rparr>"
  by (simp add: receiveProps_def useEffect_def render_def setMultipleEntities_def initialState_def
        lockedBatchProps_fields threeProducts_def)

lemma shown_batch_copy:
  "entityOrEntities (receiveProps batchProps initialState) = Some (EntityArray threeProducts)"
  "truthy (multipleEntities (receiveProps batchProps initialState))"
  by (simp_all add: shown_batch truthy_def)

lemma shown_lockedBatch_copy:
  "entityOrEntities (receiveProps lockedBatchProps initialState) = Some (EntityArray threeProducts)"
  "truthy (multipleEntities (receiveProps lockedBatchProps initialState))"
  by (simp_all add: shown_lockedBatch truthy_def)

lemma productThenProduct_state:
  "productThenProduct =
     \<lparr>loading = False, entityOrEntitiesRef = Some (OneEntity (product ''3'')),
      multipleEntities = Some False, entityOrEntities = Some (OneEntity (product ''1''))\<rparr>"
  by (simp add: productThenProduct_def receiveProps_def useEffect_def setMultipleEntities_def
        render_def initialState_def productProps_def)

lemma answers_inOrder: "answersAll inOrder (length threeProducts)"
  by (simp add: answersAll_def inOrder_def threeProducts_def upt_rec)

lemma completed_twoDocs:
  "completed (handleOk memoryStore inOrder batchProps (receiveProps batchProps initialState) twoDocs)"
  by (simp add: handleOk_batch [OF shown_batch_copy] answersAll_continued [OF answers_inOrder])

lemma multipleDeleteCalls_onDeleteFailure [simp]:
  "multipleDeleteCalls (onDeleteFailure sch e err) = []"
  by (simp add: onDeleteFailure_def)

lemma notifications_onDeleteFailure [simp]:
  "length (notifications (onDeleteFailure sch e err)) = 1"
  by (simp add: onDeleteFailure_def)

lemma notifications_onPreDeleteHookError [simp]:
  "length (notifications (onPreDeleteHookError sch e err)) = 1"
  by (simp add: onPreDeleteHookError_def)

lemma storeCalls_onPreDeleteHookError [simp]:
  "storeCalls (onPreDeleteHookError sch e err) = 0"
  by (simp add: onPreDeleteHookError_def)

section \<open>Properties of the Ok action\<close>

text \<open>
  C1. The callback of a batch is to receive the targets whose delete succeeded, and
  nothing when every delete failed. The dialog does otherwise. With the second of three
  products missing from the store the results are success, failure, success, and
  \<^verbatim>\<open>onMultipleEntitiesDelete\<close> receives all three products, not the first and the third;
  with an empty store every delete fails and the callback still receives all three.
\<close>

theorem batch_callback_receives_all_targets:
  "batchResults memoryStore batchProps threeProducts inOrder twoDocs = [True, False, True]
   \<and> succeededTargets threeProducts [True, False, True] = [product ''1'', product ''3'']
   \<and> multipleDeleteCalls (events (handleOk memoryStore inOrder batchProps
         (receiveProps batchProps initialState) twoDocs))
     = [(''products'', [product ''1'', product ''2'', product ''3''])]
   \<and> multipleDeleteCalls (events (handleOk memoryStore inOrder batchProps
         (receiveProps batchProps initialState) twoDocs))
     \<noteq> [(''products'', succeededTargets threeProducts [True, False, True])]
   \<and> batchResults memoryStore batchProps threeProducts inOrder [] = [False, False, False]
   \<and> multipleDeleteCalls (events (handleOk memoryStore inOrder batchProps
         (receiveProps batchProps initialState) []))
     = [(''products'', [product ''1'', product ''2'', product ''3''])]"
proof -
  have h1: "entityOrEntities (receiveProps batchProps initialState) = Some (EntityArray threeProducts)"
    by (simp add: shown_batch)
  have h2: "truthy (multipleEntities (receiveProps batchProps initialState))"
    by (simp add: shown_batch truthy_def)
  have r1: "batchResults memoryStore batchProps threeProducts inOrder twoDocs = [True, False, True]"
    by (simp add: batchResults_def run_twoDocs)
  have r2: "batchResults memoryStore batchProps threeProducts inOrder [] = [False, False, False]"
    by (simp add: batchResults_def run_noDocs)
  have s: "succeededTargets threeProducts [True, False, True] = [product ''1'', product ''3'']"
    by (simp add: succeededTargets_def threeProducts_def)
  have c1: "multipleDeleteCalls (events (handleOk memoryStore inOrder batchProps
         (receiveProps batchProps initialState) twoDocs))
     = [(''products'', threeProducts)]"
    by (simp add: handleOk_batch [OF h1 h2] run_twoDocs multipleDeleteCalls_append thenMultiple_def
          batchProps_fields)
  have c2: "multipleDeleteCalls (events (handleOk memoryStore inOrder batchProps
         (receiveProps batchProps initialState) []))
     = [(''products'', threeProducts)]"
    by (simp add: handleOk_batch [OF h1 h2] run_noDocs multipleDeleteCalls_append thenMultiple_def
          batchProps_fields)
  have ne: "[product ''1'', product ''2'', product ''3''] \<noteq> [product ''1'', product ''3'']"
    by (simp add: product_def)
  show ?thesis using r1 r2 s c1 c2 ne by (simp add: threeProducts_def)
qed

text \<open>
  C2. When a batch that is not empty has finished, there is one result per target, and
  the trace of the Ok action holds exactly one notification without a title, its last
  one. With \<open>k\<close> successes among \<open>N\<close> targets its severity is success exactly when
  \<open>k = N\<close>, error exactly when \<open>k = 0\<close>, and warning exactly when \<open>0 < k < N\<close>.
\<close>

theorem batch_classification:
  assumes "entityOrEntities st = Some (EntityArray es)" and "truthy (multipleEntities st)"
    and "es \<noteq> []" and "completed (handleOk db sched p st s)"
  shows "length (batchResults db p es sched s) = length es
       \<and> filter (\<lambda>m. snack_title m = None) (notifications (events (handleOk db sched p st s)))
           = [multipleSnackbar (schema p) (batchResults db p es sched s)]
       \<and> last (notifications (events (handleOk db sched p st s)))
           = multipleSnackbar (schema p) (batchResults db p es sched s)
       \<and> (snack_type (last (notifications (events (handleOk db sched p st s)))) = SnackSuccess
            \<longleftrightarrow> length (filter (\<lambda>b. b) (batchResults db p es sched s)) = length es)
       \<and> (snack_type (last (notifications (events (handleOk db sched p st s)))) = SnackError
            \<longleftrightarrow> length (filter (\<lambda>b. b) (batchResults db p es sched s)) = 0)
       \<and> (snack_type (last (notifications (events (handleOk db sched p st s)))) = SnackWarning
            \<longleftrightarrow> 0 < length (filter (\<lambda>b. b) (batchResults db p es sched s))
               \<and> length (filter (\<lambda>b. b) (batchResults db p es sched s)) < length es)"
proof -
  let ?results = "batchResults db p es sched s"
  let ?agg = "multipleSnackbar (schema p) ?results"
  obtain items where ntf: "notifications (events (handleOk db sched p st s)) = items @ [?agg]"
    and titled: "list_all (\<lambda>m. snack_type m = SnackError \<and> snack_title m \<noteq> None) items"
    using batch_notifications_shape [OF assms(1,2,4)] by blast
  have len: "length ?results = length es"
    using assms(4) by (simp add: handleOk_batch [OF assms(1,2)] batch_results_length)
  have pos: "0 < length ?results" using assms(3) len by simp
  have untitled: "snack_title ?agg = None" by (simp add: multipleSnackbar_def)
  have only: "filter (\<lambda>m. snack_title m = None) (notifications (events (handleOk db sched p st s)))
           = [?agg]"
    using untitled by (simp add: ntf titled_filter [OF titled])
  have lst: "last (notifications (events (handleOk db sched p st s))) = ?agg"
    by (simp add: ntf)
  have cls: "(snack_type ?agg = SnackSuccess
            \<longleftrightarrow> length (filter (\<lambda>b. b) ?results) = length ?results)
       \<and> (snack_type ?agg = SnackError \<longleftrightarrow> length (filter (\<lambda>b. b) ?results) = 0)
       \<and> (snack_type ?agg = SnackWarning
            \<longleftrightarrow> 0 < length (filter (\<lambda>b. b) ?results)
               \<and> length (filter (\<lambda>b. b) ?results) < length ?results)"
    using pos length_filter_le [of "\<lambda>b. b" ?results]
    by (auto simp: multipleSnackbar_def all_true_count ex_true_count simp del: length_filter_le)
  show ?thesis using len only lst cls by simp
qed

theorem batch_classification_witness:
  "entityOrEntities (receiveProps batchProps initialState) = Some (EntityArray threeProducts)
   \<and> truthy (multipleEntities (receiveProps batchProps initialState))
   \<and> threeProducts \<noteq> []
   \<and> completed (handleOk memoryStore inOrder batchProps (receiveProps batchProps initialState) twoDocs)
   \<and> batchResults memoryStore batchProps threeProducts inOrder twoDocs = [True, False, True]
   \<and> snack_type (last (notifications (events (handleOk memoryStore inOrder batchProps
        (receiveProps batchProps initialState) twoDocs)))) = SnackWarning"
proof -
  have h3: "threeProducts \<noteq> []" by (simp add: threeProducts_def)
  have n: "length threeProducts = 3" by (simp add: threeProducts_def)
  have r: "batchResults memoryStore batchProps threeProducts inOrder twoDocs = [True, False, True]"
    by (simp add: batchResults_def run_twoDocs)
  note inst = batch_classification [OF shown_batch_copy h3 completed_twoDocs]
  have "snack_type (last (notifications (events (handleOk memoryStore inOrder batchProps
        (receiveProps batchProps initialState) twoDocs)))) = SnackWarning
        \<longleftrightarrow> 0 < length (filter (\<lambda>b. b) (batchResults memoryStore batchProps threeProducts inOrder twoDocs))
            \<and> length (filter (\<lambda>b. b) (batchResults memoryStore batchProps threeProducts inOrder twoDocs))
                < length threeProducts"
    using inst by (elim conjE)
  then show ?thesis
    using shown_batch_copy h3 completed_twoDocs by (simp add: r n)
qed

text \<open>
  C3, as the code has it. A batch that has finished has emitted one notification of its
  own, the last one and the only one without a title, for the results of all the
  deletes; before it, every operation that reported an error to one of the handlers (a
  pre-delete hook that raised, a store failure, a post-delete hook that raised) has
  emitted one error notification with a title. The total is one only when no operation
  reported an error.
\<close>

theorem batch_notifications:
  assumes "entityOrEntities st = Some (EntityArray es)" and "truthy (multipleEntities st)"
    and "completed (handleOk db sched p st s)"
    and "outcomes (tasks (promiseAllThen db p es sched s)) = ops"
  shows "notifications (events (handleOk db sched p st s)) =
           butlast (notifications (events (handleOk db sched p st s)))
           @ [multipleSnackbar (schema p) (map (\<lambda>r. isSuccess (verdict r)) ops)]
       \<and> length ops = length es
       \<and> length (butlast (notifications (events (handleOk db sched p st s))))
           = length (filter reported ops)
       \<and> length (notifications (events (handleOk db sched p st s)))
           = 1 + length (filter reported ops)
       \<and> list_all (\<lambda>m. snack_type m = SnackError \<and> snack_title m \<noteq> None)
           (butlast (notifications (events (handleOk db sched p st s))))
       \<and> snack_title (multipleSnackbar (schema p) (map (\<lambda>r. isSuccess (verdict r)) ops)) = None"
proof -
  obtain items where ntf:
    "notifications (events (handleOk db sched p st s)) =
       items @ [multipleSnackbar (schema p) (batchResults db p es sched s)]"
    and titled: "list_all (\<lambda>m. snack_type m = SnackError \<and> snack_title m \<noteq> None) items"
    and cnt: "length items =
           length (filter reported (outcomes (tasks (promiseAllThen db p es sched s))))"
    using batch_notifications_shape [OF assms(1,2,3)] by blast
  have res: "batchResults db p es sched s = map (\<lambda>r. isSuccess (verdict r)) ops"
    using assms(4) by (simp add: batchResults_def)
  have "length (batchResults db p es sched s) = length es"
    using assms(3) by (simp add: handleOk_batch [OF assms(1,2)] batch_results_length)
  then have len: "length ops = length es" by (simp add: res)
  have bl: "butlast (notifications (events (handleOk db sched p st s))) = items"
    by (simp add: ntf)
  have untitled: "snack_title (multipleSnackbar (schema p) (map (\<lambda>r. isSuccess (verdict r)) ops)) = None"
    by (simp add: multipleSnackbar_def)
  show ?thesis
    using ntf titled cnt len untitled unfolding bl res assms(4) by simp
qed

theorem batch_notifications_witness:
  "entityOrEntities (receiveProps batchProps initialState) = Some (EntityArray threeProducts)
   \<and> truthy (multipleEntities (receiveProps batchProps initialState))
   \<and> completed (handleOk memoryStore inOrder batchProps (receiveProps batchProps initialState) twoDocs)
   \<and> length (notifications (events (handleOk memoryStore inOrder batchProps
        (receiveProps batchProps initialState) twoDocs))) = 2
   \<and> snack_type (last (notifications (events (handleOk memoryStore inOrder batchProps
        (receiveProps batchProps initialState) twoDocs)))) = SnackWarning"
proof -
  note inst = batch_notifications [OF shown_batch_copy completed_twoDocs outcomes_twoDocs]
  have total: "length (notifications (events (handleOk memoryStore inOrder batchProps
        (receiveProps batchProps initialState) twoDocs))) = 2"
    using inst by (simp add: reported_def)
  have "notifications (events (handleOk memoryStore inOrder batchProps
        (receiveProps batchProps initialState) twoDocs)) =
           butlast (notifications (events (handleOk memoryStore inOrder batchProps
        (receiveProps batchProps initialState) twoDocs)))
           @ [multipleSnackbar (schema batchProps) [True, False, True]]"
    using inst by simp
  then have "last (notifications (events (handleOk memoryStore inOrder batchProps
        (receiveProps batchProps initialState) twoDocs)))
       = multipleSnackbar (schema batchProps) [True, False, True]"
    by (metis last_snoc)
  then show ?thesis
    using shown_batch_copy completed_twoDocs total by (simp add: multipleSnackbar_def)
qed

text \<open>
  One store failure among three deletes gives two notifications; three deletes stopped
  by the pre-delete hook give four, and no call of the store.
\<close>

theorem batch_notifications_counterexample:
  "length (notifications (events (handleOk memoryStore inOrder batchProps
      (receiveProps batchProps initialState) twoDocs))) = 2
   \<and> length (notifications (events (handleOk memoryStore inOrder batchProps
      (receiveProps batchProps initialState) twoDocs))) \<noteq> 1
   \<and> length (notifications (events (handleOk memoryStore [] lockedBatchProps
      (receiveProps lockedBatchProps initialState) twoDocs))) = 4
   \<and> storeCalls (events (handleOk memoryStore [] lockedBatchProps
      (receiveProps lockedBatchProps initialState) twoDocs)) = 0"
proof -
  have a: "length (notifications (events (handleOk memoryStore inOrder batchProps
      (receiveProps batchProps initialState) twoDocs))) = 2"
    by (simp add: handleOk_batch [OF shown_batch_copy] run_twoDocs notifications_append
          thenMultiple_def)
  have b: "length (notifications (events (handleOk memoryStore [] lockedBatchProps
      (receiveProps lockedBatchProps initialState) twoDocs))) = 4"
    by (simp add: handleOk_batch [OF shown_lockedBatch_copy] run_locked notifications_append
          thenMultiple_def)
  have c: "storeCalls (events (handleOk memoryStore [] lockedBatchProps
      (receiveProps lockedBatchProps initialState) twoDocs)) = 0"
    by (simp add: handleOk_batch [OF shown_lockedBatch_copy] run_locked storeCalls_append
          thenMultiple_def)
  show ?thesis using a b c by simp
qed

text \<open>
  C7. Under every schedule, at every moment: the continuation of the batch has run
  exactly when every delete has settled. While a delete is in flight, the trace after
  \<^verbatim>\<open>setLoading(true)\<close> holds events of the delete operations only. Once all have
  settled there is one result per target, and the trace ends with
  \<^verbatim>\<open>setLoading(false)\<close>, the callback if it was supplied, the notification of the batch
  and \<^verbatim>\<open>onClose\<close>, after all the events of the operations. A schedule in which the
  store answers every delete lets the continuation run, and what has been emitted under
  a schedule stays the beginning of the trace when the schedule goes on.
\<close>

theorem batch_is_join:
  assumes "entityOrEntities st = Some (EntityArray es)" and "truthy (multipleEntities st)"
  shows "length (tasks (promiseAllThen db p es sched s)) = length es
       \<and> (completed (handleOk db sched p st s)
            \<longleftrightarrow> list_all isSettled (tasks (promiseAllThen db p es sched s)))
       \<and> (\<not> completed (handleOk db sched p st s)
            \<longrightarrow> list_all isOperationEvent (tl (events (handleOk db sched p st s))))
       \<and> (completed (handleOk db sched p st s)
            \<longrightarrow> length (batchResults db p es sched s) = length es
              \<and> (\<exists>ops. list_all isOperationEvent ops
                   \<and> events (handleOk db sched p st s) =
                       SetLoading True # ops
                       @ [SetLoading False]
                       @ (if onMultipleEntitiesDelete p
                          then [CallOnMultipleEntitiesDelete (collectionPath p) es] else [])
                       @ [SnackbarOpen (multipleSnackbar (schema p) (batchResults db p es sched s)),
                          CallOnClose]))
       \<and> (answersAll sched (length es) \<longrightarrow> completed (handleOk db sched p st s))
       \<and> prefix (events (handleOk db sched p st s)) (events (handleOk db (sched @ later) p st s))"
proof -
  obtain ops where ops: "list_all isOperationEvent ops"
    and ev: "events (handleOk db sched p st s) =
           SetLoading True # ops @
             (if completed (handleOk db sched p st s)
              then thenMultiple p es (batchResults db p es sched s) else [])"
    and cmp: "completed (handleOk db sched p st s) =
           list_all isSettled (tasks (promiseAllThen db p es sched s))"
    and len: "length (tasks (promiseAllThen db p es sched s)) = length es"
    using batch_shape [OF assms, of db p sched s] by blast
  have early: "\<not> completed (handleOk db sched p st s)
            \<longrightarrow> list_all isOperationEvent (tl (events (handleOk db sched p st s)))"
    using ops by (simp add: ev)
  have late: "completed (handleOk db sched p st s)
            \<longrightarrow> length (batchResults db p es sched s) = length es
              \<and> (\<exists>ops. list_all isOperationEvent ops
                   \<and> events (handleOk db sched p st s) =
                       SetLoading True # ops
                       @ [SetLoading False]
                       @ (if onMultipleEntitiesDelete p
                          then [CallOnMultipleEntitiesDelete (collectionPath p) es] else [])
                       @ [SnackbarOpen (multipleSnackbar (schema p) (batchResults db p es sched s)),
                          CallOnClose])"
  proof
    assume c: "completed (handleOk db sched p st s)"
    then have "continued (promiseAllThen db p es sched s)"
      by (simp add: handleOk_batch [OF assms])
    then have "length (batchResults db p es sched s) = length es"
      by (rule batch_results_length)
    moreover have "events (handleOk db sched p st s) =
                       SetLoading True # ops
                       @ [SetLoading False]
                       @ (if onMultipleEntitiesDelete p
                          then [CallOnMultipleEntitiesDelete (collectionPath p) es] else [])
                       @ [SnackbarOpen (multipleSnackbar (schema p) (batchResults db p es sched s)),
                          CallOnClose]"
      using c ev by (simp add: thenMultiple_def)
    ultimately show "length (batchResults db p es sched s) = length es
              \<and> (\<exists>ops. list_all isOperationEvent ops
                   \<and> events (handleOk db sched p st s) =
                       SetLoading True # ops
                       @ [SetLoading False]
                       @ (if onMultipleEntitiesDelete p
                          then [CallOnMultipleEntitiesDelete (collectionPath p) es] else [])
                       @ [SnackbarOpen (multipleSnackbar (schema p) (batchResults db p es sched s)),
                          CallOnClose])"
      using ops by blast
  qed
  have live: "answersAll sched (length es) \<longrightarrow> completed (handleOk db sched p st s)"
    by (simp add: handleOk_batch [OF assms] answersAll_continued)
  have grow: "prefix (events (handleOk db sched p st s)) (events (handleOk db (sched @ later) p st s))"
    by (simp add: handleOk_batch [OF assms] promiseAllThen_prefix)
  show ?thesis using len cmp early late live grow by blast
qed

theorem batch_is_join_witness:
  "entityOrEntities (receiveProps batchProps initialState) = Some (EntityArray threeProducts)
   \<and> truthy (multipleEntities (receiveProps batchProps initialState))
   \<and> answersAll inOrder (length threeProducts)
   \<and> completed (handleOk memoryStore inOrder batchProps (receiveProps batchProps initialState) twoDocs)
   \<and> \<not> completed (handleOk memoryStore [0, 2] batchProps (receiveProps batchProps initialState) twoDocs)
   \<and> list_all isOperationEvent (tl (events (handleOk memoryStore [0, 2] batchProps
        (receiveProps batchProps initialState) twoDocs)))
   \<and> prefix (events (handleOk memoryStore [0, 2] batchProps (receiveProps batchProps initialState) twoDocs))
        (events (handleOk memoryStore ([0, 2] @ [1]) batchProps (receiveProps batchProps initialState) twoDocs))"
proof -
  have part: "promiseAllThen memoryStore batchProps threeProducts [0, 2] twoDocs =
    \<lparr>tasks = [Settled \<lparr>verdict = OpSuccess (product ''1''), hookError = None\<rparr>,
               InFlight (product ''2''),
               Settled \<lparr>verdict = OpSuccess (product ''3''), hookError = None\<rparr>],
      batchStore = [],
      trace = [StoreDeleteCall ''products'' ''1'', StoreDeleteCall ''products'' ''2'',
               StoreDeleteCall ''products'' ''3'', ConsoleDebug, ConsoleDebug],
      continued = False\<rparr>"
    by (simp add: promiseAllThen_def threeProducts_def twoDocs_def start_product
          batchProps_fields resolve_literal thenWhenAll_literal complete_product)
  have open_yet: "\<not> completed (handleOk memoryStore [0, 2] batchProps
      (receiveProps batchProps initialState) twoDocs)"
    by (simp add: handleOk_batch [OF shown_batch_copy] part)
  note a = batch_is_join [OF shown_batch_copy, of memoryStore batchProps inOrder twoDocs "[]"]
  note b = batch_is_join [OF shown_batch_copy, of memoryStore batchProps "[0, 2]" twoDocs "[1]"]
  have done_all: "completed (handleOk memoryStore inOrder batchProps
      (receiveProps batchProps initialState) twoDocs)"
    using a answers_inOrder by blast
  have quiet: "list_all isOperationEvent (tl (events (handleOk memoryStore [0, 2] batchProps
        (receiveProps batchProps initialState) twoDocs)))"
    using b open_yet by blast
  have grow: "prefix (events (handleOk memoryStore [0, 2] batchProps (receiveProps batchProps initialState) twoDocs))
        (events (handleOk memoryStore ([0, 2] @ [1]) batchProps (receiveProps batchProps initialState) twoDocs))"
    using b by blast
  show ?thesis
    using shown_batch_copy answers_inOrder done_all open_yet quiet grow by blast
qed

text \<open>
  C8. An array of one entity is to be put on the single-entity path: its preview shown,
  and \<^verbatim>\<open>onEntityDelete\<close> invoked for it on success. When the dialog has shown the
  product 1 and then receives the array of the product 3, the effect writes the product 3
  to the ref and sets \<^verbatim>\<open>multipleEntities\<close> to the value it has, so no render follows:
  the dialog still previews the product 1, and the Ok action deletes the product 1 and
  invokes \<^verbatim>\<open>onEntityDelete\<close> with it, leaving the product 3 in the store.
\<close>

theorem one_element_array_after_single:
  "entityOrEntitiesToDelete (productProps (Some (EntityArray [product ''3''])))
     = Some (EntityArray [product ''3''])
   \<and> productThenProduct =
       receiveProps (productProps (Some (EntityArray [product ''3''])))
         (receiveProps (productProps (Some (OneEntity (product ''1'')))) initialState)
   \<and> entityOrEntitiesRef productThenProduct = Some (OneEntity (product ''3''))
   \<and> multipleEntities productThenProduct = Some False
   \<and> entityOrEntities productThenProduct = Some (OneEntity (product ''1''))
   \<and> dialogContent productThenProduct = Some (EntityPreview (product ''1''))
   \<and> dialogContent productThenProduct \<noteq> Some (EntityPreview (product ''3''))
   \<and> events (handleOk memoryStore [] (productProps (Some (EntityArray [product ''3''])))
        productThenProduct twoDocs)
     = [SetLoading True, StoreDeleteCall ''products'' ''1'', ConsoleDebug, SetLoading False,
        CallOnEntityDelete ''products'' (product ''1''),
        SnackbarOpen \<lparr>snack_type = SnackSuccess, snack_title = None,
                      snack_message = Some ''Product deleted''\<rparr>,
        CallOnClose]
   \<and> store (handleOk memoryStore [] (productProps (Some (EntityArray [product ''3''])))
        productThenProduct twoDocs) = [(''products'', ''3'')]"
proof -
  let ?p = "productProps (Some (EntityArray [product ''3'']))"
  have a1: "entityOrEntitiesToDelete ?p = Some (EntityArray [product ''3''])"
    by (simp add: productProps_def)
  have a2: "productThenProduct =
       receiveProps ?p (receiveProps (productProps (Some (OneEntity (product ''1'')))) initialState)"
    by (simp only: productThenProduct_def)
  have a3: "entityOrEntitiesRef productThenProduct = Some (OneEntity (product ''3''))"
    by (simp add: productThenProduct_state)
  have a4: "multipleEntities productThenProduct = Some False"
    by (simp add: productThenProduct_state)
  have copy: "entityOrEntities productThenProduct = Some (OneEntity (product ''1''))"
    by (simp add: productThenProduct_state)
  have falsy: "\<not> truthy (multipleEntities productThenProduct)"
    by (simp add: a4 truthy_def)
  have differ: "product ''1'' \<noteq> product ''3''" by (simp add: product_def)
  have shown: "dialogContent productThenProduct = Some (EntityPreview (product ''1''))"
    using falsy by (simp add: dialogContent_def content_def copy)
  have other: "dialogContent productThenProduct \<noteq> Some (EntityPreview (product ''3''))"
    using differ by (simp add: shown)
  have run: "performDelete memoryStore ?p (product ''1'') twoDocs =
               (([StoreDeleteCall ''products'' ''1'', ConsoleDebug], True), [(''products'', ''3'')])"
    by (simp add: performDelete_product twoDocs_def)
  have ok: "handleOk memoryStore [] ?p productThenProduct twoDocs =
       \<lparr>events = [SetLoading True] @ [StoreDeleteCall ''products'' ''1'', ConsoleDebug]
                 @ thenSingle ?p (product ''1'') True,
        dialog = setLoading False (setLoading True productThenProduct),
        store = [(''products'', ''3'')], completed = True\<rparr>"
    by (rule handleOk_single [OF copy falsy run])
  have fields: "onEntityDelete ?p" "collectionPath ?p = ''products''"
      "name (schema ?p) = ''Product''"
    by (simp_all add: productProps_def productSchema_def)
  have ev: "events (handleOk memoryStore [] ?p productThenProduct twoDocs)
     = [SetLoading True, StoreDeleteCall ''products'' ''1'', ConsoleDebug, SetLoading False,
        CallOnEntityDelete ''products'' (product ''1''),
        SnackbarOpen \<lparr>snack_type = SnackSuccess, snack_title = None,
                      snack_message = Some ''Product deleted''\<rparr>,
        CallOnClose]"
    by (simp add: ok thenSingle_def fields)
  have left: "store (handleOk memoryStore [] ?p productThenProduct twoDocs) = [(''products'', ''3'')]"
    by (simp add: ok)
  show ?thesis
    by (intro conjI a1 a2 a3 a4 copy shown other ev left)
qed

text \<open>
  C9. When the delete of a single entity reports failure, the Ok action does not invoke
  \<^verbatim>\<open>onClose\<close> nor \<^verbatim>\<open>onEntityDelete\<close>, emits no success notification, and ends
  with \<^verbatim>\<open>setLoading(false)\<close>, leaving \<^verbatim>\<open>loading\<close> false.
\<close>

theorem single_failure_stays_open:
  assumes "entityOrEntities st = Some (OneEntity e)" and "\<not> truthy (multipleEntities st)"
    and "\<not> snd (fst (performDelete db p e s))"
  shows "closeCalls (events (handleOk db sched p st s)) = 0
       \<and> entityDeleteCalls (events (handleOk db sched p st s)) = []
       \<and> list_all (\<lambda>m. snack_type m \<noteq> SnackSuccess) (notifications (events (handleOk db sched p st s)))
       \<and> last (events (handleOk db sched p st s)) = SetLoading False
       \<and> loading (dialog (handleOk db sched p st s)) = False"
proof -
  obtain evs success s' where run: "performDelete db p e s = ((evs, success), s')"
    by (metis prod.exhaust)
  have failed: "\<not> success" using assms(3) run by simp
  have ops: "list_all isOperationEvent evs"
    using performDelete_operation [of db p e s] run by simp
  have ev: "events (handleOk db sched p st s) = [SetLoading True] @ evs @ [SetLoading False]"
    using failed by (simp add: handleOk_single [OF assms(1,2) run] thenSingle_def)
  have "list_all (\<lambda>m. snack_type m = SnackError \<and> snack_title m \<noteq> None) (notifications evs)"
    using ops by (rule operation_notifications)
  then have nosucc: "list_all (\<lambda>m. snack_type m \<noteq> SnackSuccess) (notifications evs)"
    by (simp add: list_all_iff)
  have "closeCalls (events (handleOk db sched p st s)) = 0"
    by (simp add: ev closeCalls_append operation_no_closeCalls [OF ops])
  moreover have "entityDeleteCalls (events (handleOk db sched p st s)) = []"
    by (simp add: ev entityDeleteCalls_append operation_no_entityDeleteCalls [OF ops])
  moreover have "list_all (\<lambda>m. snack_type m \<noteq> SnackSuccess) (notifications (events (handleOk db sched p st s)))"
    using nosucc by (simp add: ev notifications_append)
  moreover have "last (events (handleOk db sched p st s)) = SetLoading False"
    by (simp add: ev)
  moreover have "loading (dialog (handleOk db sched p st s)) = False"
    by (simp add: handleOk_single [OF assms(1,2) run] setLoading_False_True)
  ultimately show ?thesis by simp
qed

theorem single_failure_stays_open_witness:
  "entityOrEntities (receiveProps (productProps (Some (OneEntity (product ''2'')))) initialState)
     = Some (OneEntity (product ''2''))
   \<and> \<not> truthy (multipleEntities (receiveProps (productProps (Some (OneEntity (product ''2'')))) initialState))
   \<and> \<not> snd (fst (performDelete memoryStore (productProps (Some (OneEntity (product ''2''))))
            (product ''2'') twoDocs))
   \<and> events (handleOk memoryStore [] (productProps (Some (OneEntity (product ''2''))))
        (receiveProps (productProps (Some (OneEntity (product ''2'')))) initialState) twoDocs)
     = [SetLoading True, StoreDeleteCall ''products'' ''2'',
        SnackbarOpen \<lparr>snack_type = SnackError, snack_title = Some ''Product: Error deleting'',
                      snack_message = Some ''not found''\<rparr>,
        ConsoleError, ConsoleError, SetLoading False]
   \<and> closeCalls (events (handleOk memoryStore [] (productProps (Some (OneEntity (product ''2''))))
        (receiveProps (productProps (Some (OneEntity (product ''2'')))) initialState) twoDocs)) = 0"
proof -
  let ?p = "productProps (Some (OneEntity (product ''2'')))"
  have st: "receiveProps ?p initialState =
     \<lparr>loading = False, entityOrEntitiesRef = Some (OneEntity (product ''2'')),
      multipleEntities = Some False, entityOrEntities = Some (OneEntity (product ''2''))\<rparr>"
    by (simp add: receiveProps_def useEffect_def setMultipleEntities_def render_def
          initialState_def productProps_def)
  have h1: "entityOrEntities (receiveProps ?p initialState) = Some (OneEntity (product ''2''))"
    by (simp add: st)
  have h2: "\<not> truthy (multipleEntities (receiveProps ?p initialState))"
    by (simp add: st truthy_def)
  have run: "performDelete memoryStore ?p (product ''2'') twoDocs =
       ((StoreDeleteCall ''products'' ''2''
           # onDeleteFailure productSchema (product ''2'') (Thrown (Some ''not found'')), False),
        twoDocs)"
    by (simp add: performDelete_product twoDocs_def)
  have h3: "\<not> snd (fst (performDelete memoryStore ?p (product ''2'') twoDocs))"
    by (simp add: run)
  have ev: "events (handleOk memoryStore [] ?p (receiveProps ?p initialState) twoDocs)
     = [SetLoading True, StoreDeleteCall ''products'' ''2'',
        SnackbarOpen \<lparr>snack_type = SnackError, snack_title = Some ''Product: Error deleting'',
                      snack_message = Some ''not found''\<rparr>,
        ConsoleError, ConsoleError, SetLoading False]"
    by (simp add: handleOk_single [OF h1 h2 run] thenSingle_def onDeleteFailure_def
          productSchema_def)
  from single_failure_stays_open [OF h1 h2 h3, of "[]"]
  have "closeCalls (events (handleOk memoryStore [] ?p (receiveProps ?p initialState) twoDocs)) = 0"
    by (elim conjE)
  then show ?thesis
    using h1 h2 h3 ev by simp
qed

text \<open>
  C10. When \<^verbatim>\<open>entityOrEntities\<close> is undefined, the Ok action does nothing: no event
  at all (no delete is started, no callback is invoked, nothing is notified,
  \<^verbatim>\<open>setLoading\<close> is not called), and the state of the component and of the store are
  as they were.
\<close>

theorem handleOk_undefined_noop:
  assumes "entityOrEntities st = None"
  shows "handleOk db sched p st s = \<lparr>events = [], dialog = st, store = s, completed = True\<rparr>"
  using assms by (simp add: handleOk_def)

theorem handleOk_undefined_noop_witness:
  "entityOrEntities (initialState :: unit dialogState) = None
   \<and> handleOk memoryStore [] (productProps None) initialState twoDocs
       = \<lparr>events = [], dialog = initialState, store = twoDocs, completed = True\<rparr>
   \<and> loading (dialog (handleOk memoryStore [] (productProps None) initialState twoDocs)) = False"
  using handleOk_undefined_noop [of initialState memoryStore "[]" "productProps None" twoDocs]
  by (simp add: initialState_def)

section \<open>Properties of the delete and save operations\<close>

text \<open>
  C4. When the schema has an \<^verbatim>\<open>onPreDelete\<close> hook and the hook raises, the delete is
  aborted: the outcome is a failure with the pre-delete reason, \<^verbatim>\<open>deleteEntity\<close>
  resolves to false, the store is left as it was, and the only handler invoked is the
  pre-delete one, with the entity and the error. With the handlers of the dialog no call
  of the store is in the trace and the one notification is "Error before deleting".
\<close>

theorem pre_delete_hook_aborts:
  assumes "onPreDelete sch = Some h"
    and "h \<lparr>dp_collectionPath = path, dp_id = entity_id e, dp_entity = e\<rparr> = Inl err"
  shows "performDeleteOp db sch path hs e s =
           ((HookCall PreDelete # h_onPreDeleteHookError hs e err,
             \<lparr>verdict = OpFailure e (HookFailure PreDelete err), hookError = None\<rparr>), s)
       \<and> deleteEntity db sch path hs e s =
           ((HookCall PreDelete # h_onPreDeleteHookError hs e err, False), s)
       \<and> storeCalls (fst (fst (performDeleteOp db sch path (dialogHandlers sch) e s))) = 0
       \<and> notifications (fst (fst (performDeleteOp db sch path (dialogHandlers sch) e s))) =
           [\<lparr>snack_type = SnackError,
             snack_title = Some (name sch @ '': Error before deleting''),
             snack_message = message err\<rparr>]"
proof -
  have op: "\<And>hs. performDeleteOp db sch path hs e s =
           ((HookCall PreDelete # h_onPreDeleteHookError hs e err,
             \<lparr>verdict = OpFailure e (HookFailure PreDelete err), hookError = None\<rparr>), s)"
    using assms by (simp add: performDeleteOp_def invokeIfPresent_def hookEvents_def)
  have "deleteEntity db sch path hs e s =
           ((HookCall PreDelete # h_onPreDeleteHookError hs e err, False), s)"
    by (simp add: deleteEntity_def op)
  moreover have "storeCalls (fst (fst (performDeleteOp db sch path (dialogHandlers sch) e s))) = 0"
    by (simp add: op dialogHandlers_def onPreDeleteHookError_def)
  moreover have "notifications (fst (fst (performDeleteOp db sch path (dialogHandlers sch) e s))) =
           [\<lparr>snack_type = SnackError,
             snack_title = Some (name sch @ '': Error before deleting''),
             snack_message = message err\<rparr>]"
    by (simp add: op dialogHandlers_def onPreDeleteHookError_def)
  ultimately show ?thesis using op by simp
qed

theorem pre_delete_hook_aborts_witness:
  "onPreDelete lockedSchema = Some raising
   \<and> raising \<lparr>dp_collectionPath = ''products'', dp_id = entity_id (product ''1''),
               dp_entity = product ''1''\<rparr> = (Inl (Thrown (Some ''refused'')) :: thrown + unit)
   \<and> performDeleteOp memoryStore lockedSchema ''products'' (dialogHandlers lockedSchema)
       (product ''1'') twoDocs =
       (([HookCall PreDelete,
          SnackbarOpen \<lparr>snack_type = SnackError,
                        snack_title = Some ''Product: Error before deleting'',
                        snack_message = Some ''refused''\<rparr>,
          ConsoleError],
         \<lparr>verdict = OpFailure (product ''1'') (HookFailure PreDelete (Thrown (Some ''refused''))),
          hookError = None\<rparr>), twoDocs)"
proof -
  have h1: "onPreDelete lockedSchema = Some raising"
    by (simp add: lockedSchema_def)
  have h2: "raising \<lparr>dp_collectionPath = ''products'', dp_id = entity_id (product ''1''),
               dp_entity = product ''1''\<rparr> = (Inl (Thrown (Some ''refused'')) :: thrown + unit)"
    by (simp add: raising_def)
  have nm: "name lockedSchema = ''Product''"
    by (simp add: lockedSchema_def productSchema_def)
  show ?thesis
    using h1 h2 pre_delete_hook_aborts [OF h1 h2, of memoryStore "dialogHandlers lockedSchema" twoDocs]
    by (simp add: dialogHandlers_def onPreDeleteHookError_def nm)
qed

text \<open>
  C5. When the pre-delete hook did not raise, the store deleted the entity and the
  \<^verbatim>\<open>onDelete\<close> hook raises, the outcome is still a success and \<^verbatim>\<open>deleteEntity\<close>
  resolves to true; the error of the hook is kept beside the verdict and goes to the
  post-delete handler, whose notification in the dialog says that the entity is deleted.
\<close>

theorem post_delete_hook_keeps_success:
  assumes "raisedAs PreDelete (invokeIfPresent (onPreDelete sch)
             \<lparr>dp_collectionPath = path, dp_id = entity_id e, dp_entity = e\<rparr>) = None"
    and "store_delete db path (entity_id e) s = Inr s'"
    and "onDelete sch = Some h"
    and "h \<lparr>dp_collectionPath = path, dp_id = entity_id e, dp_entity = e\<rparr> = Inl err"
  shows "verdict (snd (fst (performDeleteOp db sch path hs e s))) = OpSuccess e
       \<and> hookError (snd (fst (performDeleteOp db sch path hs e s))) = Some (HookFailure PostDelete err)
       \<and> snd (fst (deleteEntity db sch path hs e s)) = True
       \<and> snd (performDeleteOp db sch path hs e s) = s'
       \<and> fst (fst (performDeleteOp db sch path hs e s)) =
           hookEvents PreDelete (invokeIfPresent (onPreDelete sch)
              \<lparr>dp_collectionPath = path, dp_id = entity_id e, dp_entity = e\<rparr>)
           @ [StoreDeleteCall path (entity_id e)] @ h_onDeleteSuccess hs e
           @ [HookCall PostDelete] @ h_onDeleteSuccessHookError hs e err
       \<and> notifications (fst (fst (performDeleteOp db sch path (dialogHandlers sch) e s))) =
           [\<lparr>snack_type = SnackError,
             snack_title = Some (name sch @ '': Error after deleting (entity is deleted)''),
             snack_message = message err\<rparr>]"
proof -
  let ?props = "\<lparr>dp_collectionPath = path, dp_id = entity_id e, dp_entity = e\<rparr>"
  let ?pre = "invokeIfPresent (onPreDelete sch) ?props"
  have post: "invokeIfPresent (onDelete sch) ?props = HookRaised err"
    using assms(3,4) by (simp add: invokeIfPresent_def)
  have op: "\<And>hs. performDeleteOp db sch path hs e s =
      ((hookEvents PreDelete ?pre @ [StoreDeleteCall path (entity_id e)] @ h_onDeleteSuccess hs e
          @ [HookCall PostDelete] @ h_onDeleteSuccessHookError hs e err,
        \<lparr>verdict = OpSuccess e, hookError = Some (HookFailure PostDelete err)\<rparr>), s')"
    using assms(1,2) post
    by (cases ?pre) (simp_all add: performDeleteOp_def Let_def raisedAs_def hookEvents_def)
  have "notifications (fst (fst (performDeleteOp db sch path (dialogHandlers sch) e s))) =
           [\<lparr>snack_type = SnackError,
             snack_title = Some (name sch @ '': Error after deleting (entity is deleted)''),
             snack_message = message err\<rparr>]"
    by (cases ?pre)
       (simp_all add: op notifications_append hookEvents_def dialogHandlers_def
          onDeleteSuccess_def onDeleteSuccessHookError_def)
  moreover have "snd (fst (deleteEntity db sch path hs e s)) = True"
    by (simp add: deleteEntity_def op)
  ultimately show ?thesis by (simp add: op)
qed

theorem post_delete_hook_keeps_success_witness:
  "raisedAs PreDelete (invokeIfPresent (onPreDelete auditedSchema)
       \<lparr>dp_collectionPath = ''products'', dp_id = entity_id (product ''1''),
        dp_entity = product ''1''\<rparr>) = None
   \<and> store_delete memoryStore ''products'' (entity_id (product ''1'')) twoDocs
       = Inr [(''products'', ''3'')]
   \<and> onDelete auditedSchema = Some raising
   \<and> verdict (snd (fst (performDeleteOp memoryStore auditedSchema ''products''
        (dialogHandlers auditedSchema) (product ''1'') twoDocs))) = OpSuccess (product ''1'')
   \<and> snd (fst (deleteEntity memoryStore auditedSchema ''products''
        (dialogHandlers auditedSchema) (product ''1'') twoDocs)) = True
   \<and> notifications (fst (fst (performDeleteOp memoryStore auditedSchema ''products''
        (dialogHandlers auditedSchema) (product ''1'') twoDocs))) =
       [\<lparr>snack_type = SnackError,
         snack_title = Some ''Product: Error after deleting (entity is deleted)'',
         snack_message = Some ''refused''\<rparr>]"
proof -
  have h1: "raisedAs PreDelete (invokeIfPresent (onPreDelete auditedSchema)
       \<lparr>dp_collectionPath = ''products'', dp_id = entity_id (product ''1''),
        dp_entity = product ''1''\<rparr>) = None"
    by (simp add: auditedSchema_def productSchema_def invokeIfPresent_def raisedAs_def)
  have h2: "store_delete memoryStore ''products'' (entity_id (product ''1'')) twoDocs
       = Inr [(''products'', ''3'')]"
    by (simp add: memoryStore_def product_def twoDocs_def)
  have h3: "onDelete auditedSchema = Some raising"
    by (simp add: auditedSchema_def)
  have h4: "raising \<lparr>dp_collectionPath = ''products'', dp_id = entity_id (product ''1''),
               dp_entity = product ''1''\<rparr> = (Inl (Thrown (Some ''refused'')) :: thrown + unit)"
    by (simp add: raising_def)
  have nm: "name auditedSchema = ''Product''"
    by (simp add: auditedSchema_def productSchema_def)
  from post_delete_hook_keeps_success [OF h1 h2 h3 h4, of "dialogHandlers auditedSchema"]
  have v: "verdict (snd (fst (performDeleteOp memoryStore auditedSchema ''products''
        (dialogHandlers auditedSchema) (product ''1'') twoDocs))) = OpSuccess (product ''1'')"
    and b: "snd (fst (deleteEntity memoryStore auditedSchema ''products''
        (dialogHandlers auditedSchema) (product ''1'') twoDocs)) = True"
    and n: "notifications (fst (fst (performDeleteOp memoryStore auditedSchema ''products''
        (dialogHandlers auditedSchema) (product ''1'') twoDocs))) =
       [\<lparr>snack_type = SnackError,
         snack_title = Some (name auditedSchema @ '': Error after deleting (entity is deleted)''),
         snack_message = message (Thrown (Some ''refused''))\<rparr>]"
    by blast+
  show ?thesis
    using h1 h2 h3 v b n by (simp add: nm)
qed




end
